theory Spec2Isabelle
  imports Complex_Main "HOL-Library.Char_ord" "HOL-Library.List_Lexorder"
begin

text \<open>
  A shallow embedding of the catalog synchronisation job: the transfer manager
  (\<open>FTPClient\<close>), the comparator, the patch builder and the batch dispatcher
  (\<open>ShopifyClient\<close>), and the guard of the job (\<open>ProductDataCronJob\<close>). The first part
  gives the definitions, in the order of their dependencies and under the names of the
  source; the second part proves their properties.
\<close>

section \<open>JavaScript strings\<close>

text \<open>
  A JavaScript string is a sequence of UTF-16 code units. The model uses \<open>string\<close>
  (\<open>char list\<close>), a \<open>char\<close> standing for one code unit below 256 (the Latin-1 range);
  \<open>length\<close> is then the \<open>.length\<close> of the source. Code units from 256 on are outside the
  model.
\<close>

definition code_unit :: "char \<Rightarrow> nat" where
  "code_unit c = of_char c"

definition toLowerCase_char :: "char \<Rightarrow> char" where
  \<comment> \<open>\<open>String.prototype.toLowerCase\<close> on one Latin-1 code unit: A-Z and the accented
      capitals U+00C0..U+00DE (other than the multiplication sign U+00D7) move up by 32.\<close>
  "toLowerCase_char c =
     (let n = code_unit c
      in if (65 \<le> n \<and> n \<le> 90) \<or> (192 \<le> n \<and> n \<le> 222 \<and> n \<noteq> 215)
         then char_of (n + 32) else c)"

definition toLowerCase :: "string \<Rightarrow> string" where
  "toLowerCase s = map toLowerCase_char s"

definition is_lower_az :: "char \<Rightarrow> bool" where
  \<comment> \<open>the class \<open>a-z\<close>\<close>
  "is_lower_az c = (97 \<le> code_unit c \<and> code_unit c \<le> 122)"

definition is_digit :: "char \<Rightarrow> bool" where
  \<comment> \<open>the classes \<open>0-9\<close> and \<open>\d\<close>\<close>
  "is_digit c = (48 \<le> code_unit c \<and> code_unit c \<le> 57)"

definition is_space :: "char \<Rightarrow> bool" where
  \<comment> \<open>the class \<open>\s\<close> below 256: TAB, LF, VT, FF, CR, SPACE and NBSP\<close>
  "is_space c = ((9 \<le> code_unit c \<and> code_unit c \<le> 13) \<or> code_unit c = 32 \<or> code_unit c = 160)"

definition is_hyphen :: "char \<Rightarrow> bool" where
  "is_hyphen c = (c = CHR ''-'')"

function replace_runs :: "(char \<Rightarrow> bool) \<Rightarrow> char \<Rightarrow> string \<Rightarrow> string" where
  \<comment> \<open>\<open>s.replace(/X+/g, r)\<close> for a character class \<open>X\<close>: every maximal run of characters
      of the class becomes the one character \<open>r\<close>.\<close>
  "replace_runs P r [] = []"
| "replace_runs P r (c # cs) =
     (if P c then r # replace_runs P r (dropWhile P cs) else c # replace_runs P r cs)"
  by pat_completeness auto
termination
  by (relation "measure (\<lambda>(P, r, s). length s)")
     (auto simp: length_dropWhile_le less_Suc_eq_le)

definition trim_hyphens :: "string \<Rightarrow> string" where
  \<comment> \<open>\<open>s.replace(/^-|-$/g, '')\<close>: a hyphen at the very start is removed, and a hyphen at
      the very end of what follows is removed.\<close>
  "trim_hyphens s =
     (let t = (case s of [] \<Rightarrow> [] | c # cs \<Rightarrow> if c = CHR ''-'' then cs else s)
      in if t \<noteq> [] \<and> last t = CHR ''-'' then butlast t else t)"

section \<open>Handle generation\<close>

text \<open>
  \<^verbatim>\<open>
  generateHandle(title) {
      if (!title) return 'product';
      return title
          .toLowerCase()
          .replace(/[^a-z0-9\s-]/g, '')
          .replace(/\s+/g, '-')
          .replace(/-+/g, '-')
          .replace(/^-|-$/g, '')
          .substring(0, 100);
  }
  \<close>
  The argument is \<open>csvItem.Description || csvItem.Item\<close>, which may be \<open>undefined\<close>:
  \<open>None\<close> stands for \<open>undefined\<close> and \<open>null\<close>, and the empty string is falsy as well.
\<close>

definition handle_char :: "char \<Rightarrow> bool" where
  \<comment> \<open>the characters that \<open>/[^a-z0-9\s-]/g\<close> keeps\<close>
  "handle_char c = (is_lower_az c \<or> is_digit c \<or> is_space c \<or> is_hyphen c)"

definition generateHandle_chain :: "string \<Rightarrow> string" where
  \<comment> \<open>the method chain of the \<open>return\<close> statement\<close>
  "generateHandle_chain t =
     take 100 (trim_hyphens (replace_runs is_hyphen CHR ''-''
       (replace_runs is_space CHR ''-'' (filter handle_char (toLowerCase t)))))"

definition generateHandle :: "string option \<Rightarrow> string" where
  "generateHandle title =
     (case title of
        None \<Rightarrow> ''product''
      | Some t \<Rightarrow> if t = [] then ''product'' else generateHandle_chain t)"

text \<open>Shapes of strings used to describe what \<open>generateHandle\<close> returns.\<close>

definition slug_char :: "char \<Rightarrow> bool" where
  "slug_char c = (is_lower_az c \<or> is_digit c \<or> is_hyphen c)"

fun no_adjacent :: "(char \<Rightarrow> bool) \<Rightarrow> string \<Rightarrow> bool" where
  "no_adjacent P [] = True"
| "no_adjacent P [c] = True"
| "no_adjacent P (a # b # cs) = (\<not> (P a \<and> P b) \<and> no_adjacent P (b # cs))"

definition clean_handle :: "string \<Rightarrow> bool" where
  "clean_handle s =
     ((\<forall>c \<in> set s. slug_char c) \<and> no_adjacent is_hyphen s \<and> (s \<noteq> [] \<longrightarrow> hd s \<noteq> CHR ''-''))"

section \<open>Numbers: parsing and formatting\<close>

text \<open>
  A JavaScript number is a binary64 value. The model keeps a finite number by its exact
  value, a rational (the two zeros are one value: no operation below tells them apart,
  \<open>toFixed\<close> takes the sign it prints from \<open>x < 0\<close>, which is false of both), next to
  \<open>NaN\<close> and the two infinities. An operation that yields a number rounds its exact result
  to binary64 with \<open>to_double\<close>. Where the language lets an implementation approximate a
  literal of more than 20 significant digits, the model reads the literal exactly.
\<close>

datatype jsnum = NaN | Num rat | PosInf | NegInf

definition strict_neq :: "jsnum \<Rightarrow> jsnum \<Rightarrow> bool" where
  \<comment> \<open>\<open>a !== b\<close> on numbers: \<open>NaN\<close> differs from everything, itself included\<close>
  "strict_neq a b = (a = NaN \<or> b = NaN \<or> a \<noteq> b)"

function log_up :: "nat \<Rightarrow> rat \<Rightarrow> nat" where
  \<comment> \<open>how often \<open>a\<close> can be divided by the base \<open>b\<close> and stay at or above 1\<close>
  "log_up b a = (if 2 \<le> b \<and> of_nat b \<le> a then Suc (log_up b (a / of_nat b)) else 0)"
  by pat_completeness auto
termination
proof (relation "measure (\<lambda>(b, a). nat \<lfloor>a\<rfloor>)")
  show "wf (measure (\<lambda>(b, a). nat \<lfloor>a\<rfloor>))" by simp
next
  fix b :: nat and a :: rat
  assume h: "2 \<le> b \<and> of_nat b \<le> a"
  then have b2: "(2::rat) \<le> of_nat b" by (metis of_nat_le_iff of_nat_numeral)
  with h have a2: "2 \<le> a" by linarith
  have "a / of_nat b \<le> a / 2" using b2 a2 by (intro divide_left_mono) simp_all
  also have "\<dots> \<le> a - 1" using a2 by simp
  finally have "\<lfloor>a / of_nat b\<rfloor> \<le> \<lfloor>a - 1\<rfloor>" by (rule floor_mono)
  then have "\<lfloor>a / of_nat b\<rfloor> < \<lfloor>a\<rfloor>" by simp
  moreover have "0 < \<lfloor>a\<rfloor>" using a2 by simp
  ultimately show "((b, a / of_nat b), (b, a)) \<in> measure (\<lambda>(b, a). nat \<lfloor>a\<rfloor>)" by simp
qed

function log_down :: "nat \<Rightarrow> rat \<Rightarrow> nat" where
  \<comment> \<open>how often a positive \<open>a\<close> below 1 must be multiplied by the base to reach 1\<close>
  "log_down b a = (if 2 \<le> b \<and> 0 < a \<and> a < 1 then Suc (log_down b (a * of_nat b)) else 0)"
  by pat_completeness auto
termination
proof (relation "measure (\<lambda>(b, a). nat \<lceil>1 / a\<rceil>)")
  show "wf (measure (\<lambda>(b, a). nat \<lceil>1 / a\<rceil>))" by simp
next
  fix b :: nat and a :: rat
  assume h: "2 \<le> b \<and> 0 < a \<and> a < 1"
  then have b2: "(2::rat) \<le> of_nat b" by (metis of_nat_le_iff of_nat_numeral)
  define y where "y = 1 / a"
  have y1: "1 < y" using h by (simp add: y_def)
  have "1 / (a * of_nat b) = y / of_nat b" by (simp add: y_def)
  also have "\<dots> \<le> y / 2" using b2 y1 by (intro divide_left_mono) simp_all
  finally have le: "\<lceil>1 / (a * of_nat b)\<rceil> \<le> \<lceil>y / 2\<rceil>" by (rule ceiling_mono)
  have "\<lceil>y / 2\<rceil> < \<lceil>y\<rceil>"
  proof (cases "y \<le> 2")
    case True
    then have "\<lceil>y / 2\<rceil> \<le> 1" by (simp add: ceiling_le_iff)
    moreover have "1 < \<lceil>y\<rceil>" using y1 by (simp add: less_ceiling_iff)
    ultimately show ?thesis by linarith
  next
    case False
    then have "y / 2 + 1 < y" by simp
    moreover have "of_int \<lceil>y / 2\<rceil> < y / 2 + 1" by linarith
    ultimately have "of_int \<lceil>y / 2\<rceil> < y" by linarith
    then show ?thesis by (simp add: less_ceiling_iff)
  qed
  with le have "\<lceil>1 / (a * of_nat b)\<rceil> < \<lceil>1 / a\<rceil>" by (simp add: y_def)
  moreover have "0 < \<lceil>y\<rceil>" using y1 by (simp add: less_ceiling_iff)
  moreover have "\<lceil>y\<rceil> = \<lceil>1 / a\<rceil>" by (simp only: y_def)
  ultimately show "((b, a * of_nat b), (b, a)) \<in> measure (\<lambda>(b, a). nat \<lceil>1 / a\<rceil>)" by simp
qed

declare log_up.simps [simp del] log_down.simps [simp del]

definition floor_log :: "nat \<Rightarrow> rat \<Rightarrow> int" where
  \<comment> \<open>for a positive \<open>a\<close>, the integer \<open>e\<close> with \<open>b ^ e \<le> a < b ^ (e + 1)\<close>\<close>
  "floor_log b a = (if 1 \<le> a then int (log_up b a) else - int (log_down b a))"

definition round_half_even :: "rat \<Rightarrow> int" where
  "round_half_even m =
     (let f = \<lfloor>m\<rfloor>; d = m - of_int f
      in if d < 1 / 2 then f else if 1 / 2 < d then f + 1 else if even f then f else f + 1)"

definition to_double :: "rat \<Rightarrow> jsnum" where
  \<comment> \<open>the binary64 value nearest to \<open>x\<close>, the one with the even significand on a tie: a
      significand of 53 bits, exponents from -1022 (below that the spacing stays
      \<open>2 ^ -1074\<close>), and an infinity from \<open>2 ^ 1024\<close> on\<close>
  "to_double x =
     (if x = 0 then Num 0
      else (let a = \<bar>x\<bar>;
                q = max (floor_log 2 a) (- 1022) - 52;
                r = of_int (round_half_even (a / 2 powi q)) * 2 powi q
            in if 2 ^ 1024 \<le> r then (if x < 0 then NegInf else PosInf)
               else Num (if x < 0 then - r else r)))"

definition digit_val :: "char \<Rightarrow> nat" where
  "digit_val c = code_unit c - 48"

definition digits_val :: "string \<Rightarrow> nat" where
  \<comment> \<open>the value of a string of decimal digits\<close>
  "digits_val ds = foldl (\<lambda>a c. 10 * a + digit_val c) 0 ds"

definition split_sign :: "string \<Rightarrow> bool \<times> string" where
  \<comment> \<open>an optional leading \<open>+\<close> or \<open>-\<close>; the flag says the sign is negative\<close>
  "split_sign s =
     (case s of
        [] \<Rightarrow> (False, [])
      | c # r \<Rightarrow> if c = CHR ''-'' then (True, r) else if c = CHR ''+'' then (False, r) else (False, s))"

definition exponent_part :: "string \<Rightarrow> int" where
  \<comment> \<open>an \<open>ExponentPart\<close> at the start of the string: \<open>e\<close> or \<open>E\<close>, an optional sign and
      at least one digit; 0 when there is none\<close>
  "exponent_part s =
     (case s of
        [] \<Rightarrow> 0
      | c # r \<Rightarrow>
          if c = CHR ''e'' \<or> c = CHR ''E'' then
            (let (eneg, d) = split_sign r; ed = takeWhile is_digit d
             in if ed = [] then 0 else if eneg then - int (digits_val ed) else int (digits_val ed))
          else 0)"

definition parseFloat :: "string \<Rightarrow> jsnum" where
  \<comment> \<open>the global \<open>parseFloat\<close>: leading white space is skipped and the longest prefix that
      is a decimal literal (or \<open>Infinity\<close>) is read and rounded to binary64; \<open>NaN\<close> when
      there is none\<close>
  "parseFloat s =
     (let (neg, u) = split_sign (dropWhile is_space s);
          ip = takeWhile is_digit u;
          r1 = dropWhile is_digit u;
          (fp, r2) = (case r1 of
                        [] \<Rightarrow> ([], [])
                      | c # r \<Rightarrow> if c = CHR ''.'' then (takeWhile is_digit r, dropWhile is_digit r)
                                 else ([], r1))
      in if take 8 u = ''Infinity'' then (if neg then NegInf else PosInf)
         else if ip = [] \<and> fp = [] then NaN
         else (let m = rat_of_nat (digits_val (ip @ fp)) / 10 ^ length fp
               in to_double ((if neg then - m else m) * 10 powi exponent_part r2)))"

definition parseFloat_opt :: "string option \<Rightarrow> jsnum" where
  \<comment> \<open>\<open>parseFloat\<close> of a value that may be \<open>null\<close> or \<open>undefined\<close> (which read as \<open>NaN\<close>)\<close>
  "parseFloat_opt v = (case v of None \<Rightarrow> NaN | Some s \<Rightarrow> parseFloat s)"

fun dec_digits :: "nat \<Rightarrow> string" where
  "dec_digits n =
     (if n < 10 then [char_of (48 + n)] else dec_digits (n div 10) @ [char_of (48 + n mod 10)])"

declare dec_digits.simps [simp del]

subsection \<open>Number to string\<close>

text \<open>
  \<open>Number::toString\<close> writes a positive finite \<open>x\<close> with the digits \<open>s\<close> of the shortest
  decimal \<open>s * 10 ^ (n - k)\<close> (\<open>k\<close> digits) that reads back as \<open>x\<close>; of several such
  decimals the one nearest to \<open>x\<close>, and of two equally near the one with the even \<open>s\<close>.
  For \<open>k\<close> digits the candidates are the two \<open>k\<close>-digit decimals around \<open>x\<close>. A binary64
  value has such a decimal of at most 17 digits.
\<close>

definition decimal_value :: "nat \<Rightarrow> int \<Rightarrow> nat \<Rightarrow> rat" where
  "decimal_value s n k = of_nat s * 10 powi (n - int k)"

definition digit_candidates :: "rat \<Rightarrow> nat \<Rightarrow> (nat \<times> int) list" where
  \<comment> \<open>the pairs \<open>(s, n)\<close> of the two \<open>k\<close>-digit decimals around \<open>x\<close>\<close>
  "digit_candidates x k =
     (let n = floor_log 10 x + 1;
          lo = nat \<lfloor>x / 10 powi (n - int k)\<rfloor>
      in [(lo, n), (if lo + 1 < 10 ^ k then (lo + 1, n) else (10 ^ (k - 1), n + 1))])"

definition reads_back :: "rat \<Rightarrow> nat \<Rightarrow> nat \<times> int \<Rightarrow> bool" where
  "reads_back x k c = (to_double (decimal_value (fst c) (snd c) k) = Num x)"

definition nearer :: "rat \<Rightarrow> nat \<Rightarrow> nat \<times> int \<Rightarrow> nat \<times> int \<Rightarrow> nat \<times> int" where
  "nearer x k c1 c2 =
     (let d1 = \<bar>decimal_value (fst c1) (snd c1) k - x\<bar>;
          d2 = \<bar>decimal_value (fst c2) (snd c2) k - x\<bar>
      in if d1 < d2 then c1 else if d2 < d1 then c2 else if even (fst c1) then c1 else c2)"

definition shortest_digits :: "rat \<Rightarrow> nat \<times> int \<times> nat" where
  \<comment> \<open>\<open>(s, n, k)\<close> for a positive binary64 value \<open>x\<close>\<close>
  "shortest_digits x =
     (let k = (case find (\<lambda>k. filter (reads_back x k) (digit_candidates x k) \<noteq> []) [1..<18] of
                 None \<Rightarrow> 17 | Some k \<Rightarrow> k);
          c = (case filter (reads_back x k) (digit_candidates x k) of
                 [] \<Rightarrow> (nat \<lfloor>x / 10 powi (floor_log 10 x + 1 - int k)\<rfloor>, floor_log 10 x + 1)
               | [c1] \<Rightarrow> c1
               | c1 # c2 # _ \<Rightarrow> nearer x k c1 c2)
      in (fst c, snd c, k))"

definition number_toString_pos :: "rat \<Rightarrow> string" where
  \<comment> \<open>\<open>Number::toString\<close> in radix 10 for a positive finite value\<close>
  "number_toString_pos x =
     (case shortest_digits x of
        (s, n, k) \<Rightarrow>
          (let ds = dec_digits s
           in if int k \<le> n \<and> n \<le> 21 then ds @ replicate (nat (n - int k)) CHR ''0''
              else if 0 < n \<and> n \<le> 21 then take (nat n) ds @ [CHR ''.''] @ drop (nat n) ds
              else if - 6 < n \<and> n \<le> 0
                then [CHR ''0'', CHR ''.''] @ replicate (nat (- n)) CHR ''0'' @ ds
              else (let es = [CHR ''e'', if n - 1 < 0 then CHR ''-'' else CHR ''+'']
                              @ dec_digits (nat \<bar>n - 1\<bar>)
                    in if k = 1 then ds @ es else take 1 ds @ [CHR ''.''] @ drop 1 ds @ es)))"

definition number_toString :: "jsnum \<Rightarrow> string" where
  "number_toString v =
     (case v of
        NaN \<Rightarrow> ''NaN''
      | PosInf \<Rightarrow> ''Infinity''
      | NegInf \<Rightarrow> ''-Infinity''
      | Num x \<Rightarrow> if x = 0 then ''0''
                else if x < 0 then CHR ''-'' # number_toString_pos (- x)
                else number_toString_pos x)"

definition cents :: "rat \<Rightarrow> nat" where
  \<comment> \<open>for \<open>0 \<le> a\<close>: the integer \<open>n\<close> for which \<open>n / 100 - a\<close> is closest to zero, the
      larger one if there are two\<close>
  "cents a = nat \<lfloor>a * 100 + 1 / 2\<rfloor>"

definition fixed2 :: "rat \<Rightarrow> string" where
  \<comment> \<open>for \<open>0 \<le> a < 10 ^ 21\<close>: the digits of \<open>cents a\<close>, filled with zeros on the left to
      three digits at least, with a point before the last two\<close>
  "fixed2 a =
     (let ds = dec_digits (cents a);
          padded = replicate (3 - length ds) CHR ''0'' @ ds;
          k = length padded
      in take (k - 2) padded @ [CHR ''.''] @ drop (k - 2) padded)"

definition toFixed2 :: "jsnum \<Rightarrow> string" where
  \<comment> \<open>\<open>v.toFixed(2)\<close>: a value that is not finite is written by \<open>Number::toString\<close>; a
      negative one gives its sign and goes on with \<open>- x\<close>; from \<open>10 ^ 21\<close> on the value is
      written by \<open>Number::toString\<close>, below by \<open>fixed2\<close>\<close>
  "toFixed2 v =
     (case v of
        Num x \<Rightarrow> (if x < 0 then [CHR ''-''] else [])
                 @ (if 10 ^ 21 \<le> \<bar>x\<bar> then number_toString (Num \<bar>x\<bar>) else fixed2 \<bar>x\<bar>)
      | _ \<Rightarrow> number_toString v)"

subsection \<open>Prices, weights and quantities\<close>

definition truthy :: "string option \<Rightarrow> bool" where
  \<comment> \<open>truthiness of a value that is a string, \<open>null\<close> or \<open>undefined\<close>\<close>
  "truthy v = (case v of None \<Rightarrow> False | Some s \<Rightarrow> s \<noteq> [])"

definition or_else :: "string option \<Rightarrow> string option \<Rightarrow> string option" where
  \<comment> \<open>\<open>a || b\<close>\<close>
  "or_else a b = (if truthy a then a else b)"

definition price_char :: "char \<Rightarrow> bool" where
  \<comment> \<open>the characters that \<open>/[^\d.-]/g\<close> keeps\<close>
  "price_char c = (is_digit c \<or> c = CHR ''.'' \<or> c = CHR ''-'')"

definition parsePrice :: "string option \<Rightarrow> string" where
  "parsePrice priceStr =
     (if \<not> truthy priceStr then ''0.00''
      else (case parseFloat (filter price_char (the priceStr)) of
              NaN \<Rightarrow> ''0.00''
            | price \<Rightarrow> toFixed2 price))"

definition js_times :: "jsnum \<Rightarrow> jsnum \<Rightarrow> jsnum" where
  \<comment> \<open>\<open>a * b\<close>: the exact product rounded to binary64\<close>
  "js_times a b =
     (case (a, b) of
        (Num x, Num y) \<Rightarrow> to_double (x * y)
      | (NaN, _) \<Rightarrow> NaN
      | (_, NaN) \<Rightarrow> NaN
      | (Num x, i) \<Rightarrow> if x = 0 then NaN else if (x < 0) = (i = NegInf) then PosInf else NegInf
      | (i, Num y) \<Rightarrow> if y = 0 then NaN else if (y < 0) = (i = NegInf) then PosInf else NegInf
      | (i, j) \<Rightarrow> if i = j then PosInf else NegInf)"

definition math_round :: "jsnum \<Rightarrow> jsnum" where
  \<comment> \<open>\<open>Math.round\<close>: the nearest integer, a half going up\<close>
  "math_round v = (case v of Num x \<Rightarrow> Num (of_int \<lfloor>x + 1 / 2\<rfloor>) | _ \<Rightarrow> v)"

definition parseWeight :: "string option \<Rightarrow> jsnum" where
  \<comment> \<open>the literal \<open>28.35\<close> is the binary64 value nearest to it\<close>
  "parseWeight weightStr =
     (if \<not> truthy weightStr then Num 0
      else (case parseFloat (filter price_char (the weightStr)) of
              NaN \<Rightarrow> Num 0
            | weight \<Rightarrow> math_round (js_times weight (to_double (2835 / 100)))))"

definition hex_val :: "char \<Rightarrow> nat option" where
  "hex_val c =
     (let n = code_unit c
      in if 48 \<le> n \<and> n \<le> 57 then Some (n - 48)
         else if 97 \<le> n \<and> n \<le> 102 then Some (n - 87)
         else if 65 \<le> n \<and> n \<le> 70 then Some (n - 55)
         else None)"

definition parseInt :: "string option \<Rightarrow> jsnum" where
  \<comment> \<open>\<open>parseInt(v)\<close> of a string (or \<open>undefined\<close>) with no radix: white space, a sign, then
      hexadecimal digits after \<open>0x\<close> or \<open>0X\<close> and decimal digits otherwise; the integer
      read is rounded to binary64; \<open>NaN\<close> when there is no digit\<close>
  "parseInt v =
     (case v of
        None \<Rightarrow> NaN
      | Some s \<Rightarrow>
          (let (neg, u) = split_sign (dropWhile is_space s);
               hex = (take 2 u = ''0x'' \<or> take 2 u = ''0X'');
               ds = (if hex then takeWhile (\<lambda>c. hex_val c \<noteq> None) (drop 2 u)
                     else takeWhile is_digit u);
               n = (if hex then foldl (\<lambda>a c. 16 * a + the (hex_val c)) 0 ds else digits_val ds)
           in if ds = [] then NaN else to_double (if neg then - of_nat n else of_nat n)))"

definition parseInt_number :: "jsnum \<Rightarrow> jsnum" where
  \<comment> \<open>\<open>parseInt(v)\<close> of a number: the number is first written by \<open>Number::toString\<close>\<close>
  "parseInt_number v = parseInt (Some (number_toString v))"

definition or_zero :: "jsnum \<Rightarrow> jsnum" where
  \<comment> \<open>\<open>v || 0\<close>\<close>
  "or_zero v = (if v = NaN \<or> v = Num 0 then Num 0 else v)"

section \<open>Feed rows and products\<close>

text \<open>
  A feed row (\<open>csvItem\<close>) maps column names to strings; a column can be missing
  (\<open>undefined\<close>, here \<open>None\<close>). The record names the columns that the variant, the title
  and the status are made from; the row's other columns are the record's extension.
\<close>

record csv_item =
  Item :: "string option"
  Description :: "string option"
  Status :: "string option"
  MSRP :: "string option"
  ContractPrice :: "string option"
  Qty_Avail :: "string option"
  Weight :: "string option"
  UPC :: "string option"

text \<open>The variant that \<open>createVariant\<close> builds (its constant fields are left out).\<close>

record csv_variant =
  v_sku :: string
  v_barcode :: string
  v_price :: string
  v_compare_at_price :: "string option"
  v_inventory_quantity :: jsnum
  v_weight :: jsnum

definition createVariant :: "'a csv_item_scheme \<Rightarrow> csv_variant" where
  "createVariant csvItem =
     \<lparr> v_sku = (if truthy (Item csvItem) then the (Item csvItem) else ''''),
       v_barcode = (if truthy (UPC csvItem) then the (UPC csvItem) else ''''),
       v_price = parsePrice (or_else (MSRP csvItem) (ContractPrice csvItem)),
       v_compare_at_price = (if truthy (MSRP csvItem) then Some (parsePrice (MSRP csvItem)) else None),
       v_inventory_quantity = or_zero (parseInt (Qty_Avail csvItem)),
       v_weight = parseWeight (Weight csvItem) \<rparr>"

text \<open>
  The product that \<open>mapCSVToShopifyProduct\<close> builds, restricted to the fields that the
  comparator and the patch builder read. The mapper stores the category under the key
  \<open>category\<close>; the comparator and the patch builder read \<open>product_category_id\<close>, a key
  the mapper never sets, so that field is always \<open>undefined\<close> in a mapped product.
\<close>

record 'c product_data =
  p_title :: string
  p_handle :: string
  p_body_html :: string
  p_product_type :: string
  p_status :: string
  p_tags :: string
  p_variants :: "csv_variant list"
  p_images :: "string list"
  p_category :: 'c
  p_product_category_id :: "'c option"

text \<open>
  \<open>generateProductDescription\<close>, \<open>extractProductType\<close>, \<open>generateTags\<close>,
  \<open>createImages\<close> and \<open>getCategoryId\<close> build their values from further columns of the
  row. The comparator and the patch builder only compare and copy these values, so the
  five functions are parameters of the mapper; an image is represented by its \<open>src\<close>.
\<close>

record ('a, 'c) renderers =
  generateProductDescription :: "'a csv_item_scheme \<Rightarrow> string"
  extractProductType :: "'a csv_item_scheme \<Rightarrow> string"
  generateTags :: "'a csv_item_scheme \<Rightarrow> string"
  createImages :: "'a csv_item_scheme \<Rightarrow> string list"
  getCategoryId :: "'a csv_item_scheme \<Rightarrow> 'c"

definition mapCSVToShopifyProduct ::
  "('a, 'c) renderers \<Rightarrow> 'a csv_item_scheme \<Rightarrow> 'c product_data" where
  "mapCSVToShopifyProduct R csvItem =
     \<lparr> p_title = (if truthy (Description csvItem) then the (Description csvItem)
                  else if truthy (Item csvItem) then the (Item csvItem)
                  else ''Untitled Product''),
       p_handle = generateHandle (or_else (Description csvItem) (Item csvItem)),
       p_body_html = generateProductDescription R csvItem,
       p_product_type = extractProductType R csvItem,
       p_status = (if Status csvItem = Some ''Active'' then ''active'' else ''draft''),
       p_tags = generateTags R csvItem,
       p_variants = [createVariant csvItem],
       p_images = createImages R csvItem,
       p_category = getCategoryId R csvItem,
       p_product_category_id = None \<rparr>"

text \<open>
  A product as the catalog API returns it (\<open>existingProduct\<close>). Fields that the API can
  leave out or set to \<open>null\<close> are options; prices are strings; the inventory quantity is a
  number written as an integer and the weight a number, each standing for the binary64
  value that the response is parsed to (\<open>to_double\<close>).
\<close>

record shop_variant =
  sv_id :: nat
  sv_sku :: "string option"
  sv_barcode :: "string option"
  sv_price :: "string option"
  sv_compare_at_price :: "string option"
  sv_inventory_quantity :: "int option"
  sv_weight :: "rat option"

record 'c shop_product =
  sp_id :: nat
  sp_title :: string
  sp_body_html :: "string option"
  sp_product_type :: "string option"
  sp_tags :: "string option"
  sp_status :: "string option"
  sp_product_category_id :: "'c option"
  sp_variants :: "shop_variant list option"
  sp_images :: "string list option"

section \<open>The update comparator\<close>

text \<open>The names that \<open>doesProductNeedUpdate\<close> pushes onto \<open>changes\<close>.\<close>

datatype change =
  Title | DescriptionChange | ProductType | Tags | StatusChange | Category
| Price | ComparePrice | Inventory | Sku | Barcode | WeightChange | Images

record needs_update =
  hasChanges :: bool
  changes :: "change list"

definition variant_changes :: "csv_variant \<Rightarrow> shop_variant \<Rightarrow> change list" where
  \<comment> \<open>the six comparisons of the first variants, in the order of the source\<close>
  "variant_changes csvVariant existingVariant =
     (if strict_neq (parseFloat (v_price csvVariant)) (parseFloat_opt (sv_price existingVariant))
      then [Price] else [])
   @ (if truthy (v_compare_at_price csvVariant)
         \<and> strict_neq (parseFloat_opt (v_compare_at_price csvVariant))
              (if truthy (sv_compare_at_price existingVariant)
               then parseFloat_opt (sv_compare_at_price existingVariant) else Num 0)
      then [ComparePrice] else [])
   @ (if strict_neq (parseInt_number (v_inventory_quantity csvVariant))
           (parseInt_number (or_zero (case sv_inventory_quantity existingVariant of
                                        None \<Rightarrow> NaN | Some n \<Rightarrow> to_double (of_int n))))
      then [Inventory] else [])
   @ (if Some (v_sku csvVariant) \<noteq> sv_sku existingVariant then [Sku] else [])
   @ (if Some (v_barcode csvVariant) \<noteq> sv_barcode existingVariant then [Barcode] else [])
   @ (case sv_weight existingVariant of
        None \<Rightarrow> [WeightChange]
      | Some w \<Rightarrow> if strict_neq (v_weight csvVariant) (to_double w) then [WeightChange] else [])"

definition compare_products :: "'c product_data \<Rightarrow> 'c shop_product \<Rightarrow> change list" where
  \<comment> \<open>the body of \<open>doesProductNeedUpdate\<close> after the row was mapped. Every category
      identifier counts as truthy. \<open>variants[0]\<close> of the mapped product always exists,
      the mapper stores exactly one variant.\<close>
  "compare_products csvProductData existingProduct =
     (if p_title csvProductData \<noteq> sp_title existingProduct then [Title] else [])
   @ (if Some (p_body_html csvProductData) \<noteq> sp_body_html existingProduct
      then [DescriptionChange] else [])
   @ (if Some (p_product_type csvProductData) \<noteq> sp_product_type existingProduct
      then [ProductType] else [])
   @ (if Some (p_tags csvProductData) \<noteq> sp_tags existingProduct then [Tags] else [])
   @ (if Some (p_status csvProductData) \<noteq> sp_status existingProduct then [StatusChange] else [])
   @ (if p_product_category_id csvProductData \<noteq> None
         \<and> p_product_category_id csvProductData \<noteq> sp_product_category_id existingProduct
      then [Category] else [])
   @ (case (sp_variants existingProduct, p_variants csvProductData) of
        (Some (existingVariant # _), csvVariant # _) \<Rightarrow> variant_changes csvVariant existingVariant
      | _ \<Rightarrow> [])
   @ (if sort (case sp_images existingProduct of None \<Rightarrow> [] | Some urls \<Rightarrow> urls)
          \<noteq> sort (p_images csvProductData)
      then [Images] else [])"

definition doesProductNeedUpdate ::
  "('a, 'c) renderers \<Rightarrow> 'a csv_item_scheme \<Rightarrow> 'c shop_product \<Rightarrow> needs_update" where
  "doesProductNeedUpdate R csvItem existingProduct =
     (let cs = compare_products (mapCSVToShopifyProduct R csvItem) existingProduct
      in \<lparr> hasChanges = (cs \<noteq> []), changes = cs \<rparr>)"

section \<open>The patch builder\<close>

text \<open>
  The object that \<open>buildUpdateData\<close> fills: a key that was never assigned is \<open>None\<close>. Two
  keys can be assigned \<open>null\<close> or \<open>undefined\<close> (\<open>Some None\<close>): the category, and the
  compare-at price of the variant.
\<close>

record variant_update =
  vu_id :: nat
  vu_price :: "string option"
  vu_compare_at_price :: "string option option"
  vu_inventory_quantity :: "jsnum option"
  vu_sku :: "string option"
  vu_barcode :: "string option"
  vu_weight :: "jsnum option"

record 'c update_data =
  u_id :: nat
  u_title :: "string option"
  u_body_html :: "string option"
  u_product_type :: "string option"
  u_tags :: "string option"
  u_status :: "string option"
  u_product_category_id :: "'c option option"
  u_images :: "string list option"
  u_variants :: "variant_update list option"

definition new_variant_update :: "nat \<Rightarrow> variant_update" where
  \<comment> \<open>\<open>{ id: existingProduct.variants[0].id }\<close>\<close>
  "new_variant_update i =
     \<lparr> vu_id = i, vu_price = None, vu_compare_at_price = None, vu_inventory_quantity = None,
       vu_sku = None, vu_barcode = None, vu_weight = None \<rparr>"

definition set_variant_field :: "change \<Rightarrow> csv_variant \<Rightarrow> variant_update \<Rightarrow> variant_update" where
  \<comment> \<open>the six \<open>if (change === ...)\<close> assignments\<close>
  "set_variant_field ch csvVariant vu =
     (case ch of
        Price \<Rightarrow> vu\<lparr>vu_price := Some (v_price csvVariant)\<rparr>
      | ComparePrice \<Rightarrow> vu\<lparr>vu_compare_at_price := Some (v_compare_at_price csvVariant)\<rparr>
      | Inventory \<Rightarrow> vu\<lparr>vu_inventory_quantity := Some (v_inventory_quantity csvVariant)\<rparr>
      | Sku \<Rightarrow> vu\<lparr>vu_sku := Some (v_sku csvVariant)\<rparr>
      | Barcode \<Rightarrow> vu\<lparr>vu_barcode := Some (v_barcode csvVariant)\<rparr>
      | WeightChange \<Rightarrow> vu\<lparr>vu_weight := Some (v_weight csvVariant)\<rparr>
      | _ \<Rightarrow> vu)"

definition variant_case ::
  "change \<Rightarrow> 'c product_data \<Rightarrow> 'c shop_product \<Rightarrow> 'c update_data \<Rightarrow> 'c update_data" where
  \<comment> \<open>the shared body of the six variant \<open>case\<close> labels: a fresh \<open>variantUpdate\<close> is built
      for this one change and assigned as the whole \<open>variants\<close> array\<close>
  "variant_case ch csvProductData existingProduct updateData =
     (let updateData1 = (if u_variants updateData = None
                         then updateData\<lparr>u_variants := Some []\<rparr> else updateData)
      in case (sp_variants existingProduct, p_variants csvProductData) of
           (Some (existingVariant # _), csvVariant # _) \<Rightarrow>
             updateData1\<lparr>u_variants :=
               Some [set_variant_field ch csvVariant (new_variant_update (sv_id existingVariant))]\<rparr>
         | _ \<Rightarrow> updateData1)"

definition apply_change ::
  "'c product_data \<Rightarrow> 'c shop_product \<Rightarrow> 'c update_data \<Rightarrow> change \<Rightarrow> 'c update_data" where
  \<comment> \<open>one round of the \<open>switch\<close>\<close>
  "apply_change csvProductData existingProduct updateData ch =
     (case ch of
        Title \<Rightarrow> updateData\<lparr>u_title := Some (p_title csvProductData)\<rparr>
      | DescriptionChange \<Rightarrow> updateData\<lparr>u_body_html := Some (p_body_html csvProductData)\<rparr>
      | ProductType \<Rightarrow> updateData\<lparr>u_product_type := Some (p_product_type csvProductData)\<rparr>
      | Tags \<Rightarrow> updateData\<lparr>u_tags := Some (p_tags csvProductData)\<rparr>
      | StatusChange \<Rightarrow> updateData\<lparr>u_status := Some (p_status csvProductData)\<rparr>
      | Category \<Rightarrow>
          updateData\<lparr>u_product_category_id := Some (p_product_category_id csvProductData)\<rparr>
      | Images \<Rightarrow> updateData\<lparr>u_images := Some (p_images csvProductData)\<rparr>
      | _ \<Rightarrow> variant_case ch csvProductData existingProduct updateData)"

definition buildUpdateData ::
  "'c product_data \<Rightarrow> 'c shop_product \<Rightarrow> change list \<Rightarrow> 'c update_data" where
  "buildUpdateData csvProductData existingProduct chs =
     foldl (apply_change csvProductData existingProduct)
       \<lparr> u_id = sp_id existingProduct, u_title = None, u_body_html = None,
         u_product_type = None, u_tags = None, u_status = None,
         u_product_category_id = None, u_images = None, u_variants = None \<rparr>
       chs"

section \<open>The batch dispatcher\<close>

text \<open>
  The catalog API is a transition of an abstract world \<open>'w\<close>: a call returns the product
  the API answers with, or the message of the error it throws. What the dispatcher does
  to the outside is kept as a trace of events: the API calls, the pacing delays, and the
  start of every batch (the position and the length of the slice).
\<close>

datatype 'c api_call = CreateProduct "'c product_data" | UpdateProduct nat "'c update_data"

datatype 'c event = Net "'c api_call" | Delay nat | BatchStart int nat

type_synonym ('w, 'c) api = "'w \<Rightarrow> 'c api_call \<Rightarrow> (string + 'c shop_product) \<times> 'w"

type_synonym ('w, 'c) net = "'w \<times> 'c event list"

datatype ('a, 'c) item =
  CreateItem "'a csv_item_scheme"
| UpdateItem "'a csv_item_scheme" "'c shop_product" "change list"

datatype result_type = Created | Updated | DryRunCreate | DryRunUpdate

datatype 'c payload =
  RemoteProduct "'c shop_product" | CreatePayload "'c product_data" | UpdatePayload "'c update_data"

text \<open>
  What an item operation resolves to: \<open>{success: true, type, product}\<close>, or the object
  \<open>{success: false, error, csvItem}\<close> that the parallel path builds in its \<open>catch\<close>.
\<close>

datatype 'c item_result = Success result_type "'c payload" | Failed string string

datatype 'c settled = Fulfilled "'c item_result" | Rejected string

record 'c results =
  total :: nat
  created :: nat
  updated :: nat
  skipped :: nat
  errors :: nat
  createdProducts :: "'c payload list"
  updatedProducts :: "'c payload list"
  errorDetails :: "(string \<times> string) list"

definition call_api :: "('w, 'c) api \<Rightarrow> 'c api_call \<Rightarrow> ('w, 'c) net \<Rightarrow> (string + 'c shop_product) \<times> ('w, 'c) net" where
  \<comment> \<open>\<open>createProduct\<close> and \<open>updateProduct\<close>: one request, recorded in the trace; an error
      is thrown on to the caller\<close>
  "call_api api c n = (case api (fst n) c of (r, w') \<Rightarrow> (r, (w', snd n @ [Net c])))"

definition processCreateItem ::
  "('a, 'c) renderers \<Rightarrow> ('w, 'c) api \<Rightarrow> bool \<Rightarrow> 'a csv_item_scheme \<Rightarrow> ('w, 'c) net
   \<Rightarrow> (string + 'c item_result) \<times> ('w, 'c) net" where
  "processCreateItem R api dryRun csvItem n =
     (let productData = mapCSVToShopifyProduct R csvItem
      in if dryRun then (Inr (Success DryRunCreate (CreatePayload productData)), n)
         else (case call_api api (CreateProduct productData) n of
                 (Inl msg, n') \<Rightarrow> (Inl msg, n')
               | (Inr createdProduct, n') \<Rightarrow>
                   (Inr (Success Created (RemoteProduct createdProduct)), n')))"

definition processUpdateItem ::
  "('a, 'c) renderers \<Rightarrow> ('w, 'c) api \<Rightarrow> bool \<Rightarrow> 'a csv_item_scheme \<Rightarrow> 'c shop_product
   \<Rightarrow> change list \<Rightarrow> ('w, 'c) net \<Rightarrow> (string + 'c item_result) \<times> ('w, 'c) net" where
  "processUpdateItem R api dryRun csvItem existingProduct chs n =
     (let csvProductData = mapCSVToShopifyProduct R csvItem;
          updateData = buildUpdateData csvProductData existingProduct chs
      in if dryRun then (Inr (Success DryRunUpdate (UpdatePayload updateData)), n)
         else (case call_api api (UpdateProduct (sp_id existingProduct) updateData) n of
                 (Inl msg, n') \<Rightarrow> (Inl msg, n')
               | (Inr updatedProduct, n') \<Rightarrow>
                   (Inr (Success Updated (RemoteProduct updatedProduct)), n')))"

definition process_item ::
  "('a, 'c) renderers \<Rightarrow> ('w, 'c) api \<Rightarrow> bool \<Rightarrow> ('a, 'c) item \<Rightarrow> ('w, 'c) net
   \<Rightarrow> (string + 'c item_result) \<times> ('w, 'c) net" where
  \<comment> \<open>the \<open>if (item.action === 'create') ... else if (item.action === 'update') ...\<close>\<close>
  "process_item R api dryRun it n =
     (case it of
        CreateItem csvItem \<Rightarrow> processCreateItem R api dryRun csvItem n
      | UpdateItem csvItem existingProduct chs \<Rightarrow>
          processUpdateItem R api dryRun csvItem existingProduct chs n)"

definition item_csv :: "('a, 'c) item \<Rightarrow> 'a csv_item_scheme" where
  "item_csv it = (case it of CreateItem c \<Rightarrow> c | UpdateItem c _ _ \<Rightarrow> c)"

definition item_name :: "('a, 'c) item \<Rightarrow> string" where
  \<comment> \<open>\<open>item.csvItem.Item || 'Unknown'\<close>\<close>
  "item_name it =
     (if truthy (Item (item_csv it)) then the (Item (item_csv it)) else ''Unknown'')"

definition record_success :: "result_type \<Rightarrow> 'c payload \<Rightarrow> 'c results \<Rightarrow> 'c results" where
  \<comment> \<open>\<open>if (type === 'created') ... else if (type === 'updated') ...\<close>: no other type is
      counted\<close>
  "record_success ty p res =
     (if ty = Created
      then res\<lparr>created := created res + 1, createdProducts := createdProducts res @ [p]\<rparr>
      else if ty = Updated
      then res\<lparr>updated := updated res + 1, updatedProducts := updatedProducts res @ [p]\<rparr>
      else res)"

definition record_error :: "string \<Rightarrow> string \<Rightarrow> 'c results \<Rightarrow> 'c results" where
  \<comment> \<open>\<open>results.errors++; results.errorDetails.push({csvItem, error})\<close>\<close>
  "record_error name msg res =
     res\<lparr>errors := errors res + 1, errorDetails := errorDetails res @ [(name, msg)]\<rparr>"

subsection \<open>A batch in parallel\<close>

text \<open>
  \<open>batch.map(async item => { try { ... } catch (error) { return {success: false, ...} } })\<close>
  starts every item operation; \<open>Promise.allSettled\<close> waits for all of them and keeps their
  results in the order of the batch. The model issues the operations in the order of the
  batch, one of the orders in which the requests can reach the API. Since the callback
  catches every error, every promise is fulfilled.
\<close>

definition item_promise ::
  "('a, 'c) renderers \<Rightarrow> ('w, 'c) api \<Rightarrow> bool \<Rightarrow> ('a, 'c) item \<Rightarrow> ('w, 'c) net
   \<Rightarrow> 'c settled \<times> ('w, 'c) net" where
  "item_promise R api dryRun it n =
     (case process_item R api dryRun it n of
        (Inr v, n') \<Rightarrow> (Fulfilled v, n')
      | (Inl msg, n') \<Rightarrow> (Fulfilled (Failed msg (item_name it)), n'))"

fun all_settled ::
  "('a, 'c) renderers \<Rightarrow> ('w, 'c) api \<Rightarrow> bool \<Rightarrow> ('a, 'c) item list \<Rightarrow> ('w, 'c) net
   \<Rightarrow> 'c settled list \<times> ('w, 'c) net" where
  "all_settled R api dryRun [] n = ([], n)"
| "all_settled R api dryRun (it # its) n =
     (case item_promise R api dryRun it n of
        (r, n1) \<Rightarrow> (case all_settled R api dryRun its n1 of (rs, n2) \<Rightarrow> (r # rs, n2)))"

definition tally :: "'c results \<Rightarrow> ('a, 'c) item \<times> 'c settled \<Rightarrow> 'c results" where
  \<comment> \<open>the body of \<open>batchResults.forEach((result, index) => ...)\<close>\<close>
  "tally res ir =
     (case snd ir of
        Fulfilled (Success ty p) \<Rightarrow> record_success ty p res
      | Fulfilled (Failed msg name) \<Rightarrow> record_error name msg res
      | Rejected msg \<Rightarrow> record_error (item_name (fst ir)) msg res)"

definition processBatchParallelWithUpdates ::
  "('a, 'c) renderers \<Rightarrow> ('w, 'c) api \<Rightarrow> bool \<Rightarrow> ('a, 'c) item list
   \<Rightarrow> ('w, 'c) net \<times> 'c results \<Rightarrow> ('w, 'c) net \<times> 'c results" where
  "processBatchParallelWithUpdates R api dryRun batch st =
     (case all_settled R api dryRun batch (fst st) of
        (batchResults, n') \<Rightarrow> (n', foldl tally (snd st) (zip batch batchResults)))"

subsection \<open>A batch in sequence\<close>

fun processBatchSequentialWithUpdates ::
  "('a, 'c) renderers \<Rightarrow> ('w, 'c) api \<Rightarrow> bool \<Rightarrow> ('a, 'c) item list
   \<Rightarrow> ('w, 'c) net \<times> 'c results \<Rightarrow> ('w, 'c) net \<times> 'c results" where
  "processBatchSequentialWithUpdates R api dryRun [] st = st"
| "processBatchSequentialWithUpdates R api dryRun (it # its) st =
     processBatchSequentialWithUpdates R api dryRun its
       (case process_item R api dryRun it (fst st) of
          (Inr (Success ty p), (w, tr)) \<Rightarrow> ((w, tr @ [Delay 100]), record_success ty p (snd st))
        | (Inr (Failed msg name), (w, tr)) \<Rightarrow> ((w, tr @ [Delay 100]), snd st)
        | (Inl msg, n') \<Rightarrow> (n', record_error (item_name it) msg (snd st)))"

subsection \<open>The loop over the batches\<close>

record options =
  batchSize :: int
  delayBetweenBatches :: nat
  dryRun :: bool
  parallelBatch :: bool
  enableUpdates :: bool

definition js_slice :: "'x list \<Rightarrow> int \<Rightarrow> int \<Rightarrow> 'x list" where
  \<comment> \<open>\<open>xs.slice(i, j)\<close>: a negative index counts from the end, and both ends are clamped
      to the array\<close>
  "js_slice xs i j =
     (let n = int (length xs);
          k = (if i < 0 then max (n + i) 0 else min i n);
          e = (if j < 0 then max (n + j) 0 else min j n)
      in take (nat (e - k)) (drop (nat k) xs))"

definition emit :: "'c event \<Rightarrow> ('w, 'c) net \<times> 'c results \<Rightarrow> ('w, 'c) net \<times> 'c results" where
  "emit e st = ((fst (fst st), snd (fst st) @ [e]), snd st)"

definition process_batch ::
  "('a, 'c) renderers \<Rightarrow> ('w, 'c) api \<Rightarrow> options \<Rightarrow> ('a, 'c) item list \<Rightarrow> int
   \<Rightarrow> ('w, 'c) net \<times> 'c results \<Rightarrow> ('w, 'c) net \<times> 'c results" where
  \<comment> \<open>the body of the \<open>for\<close> loop at position \<open>i\<close>\<close>
  "process_batch R api opts allProductsToProcess i st =
     (let batch = js_slice allProductsToProcess i (i + batchSize opts);
          st1 = emit (BatchStart i (length batch)) st;
          st2 = (if parallelBatch opts \<and> \<not> dryRun opts
                 then processBatchParallelWithUpdates R api (dryRun opts) batch st1
                 else processBatchSequentialWithUpdates R api (dryRun opts) batch st1)
      in if i + batchSize opts < int (length allProductsToProcess)
         then emit (Delay (delayBetweenBatches opts)) st2 else st2)"

text \<open>
  \<open>for (let i = 0; i < allProductsToProcess.length; i += batchSize)\<close>. With a batch size
  of zero or less the loop of the source never ends; the model then has no result
  (\<open>None\<close>).
\<close>

partial_function (option) batch_loop ::
  "('a, 'c) renderers \<Rightarrow> ('w, 'c) api \<Rightarrow> options \<Rightarrow> ('a, 'c) item list \<Rightarrow> int
   \<Rightarrow> ('w, 'c) net \<times> 'c results \<Rightarrow> (('w, 'c) net \<times> 'c results) option" where
  "batch_loop R api opts allProductsToProcess i st =
     (if i < int (length allProductsToProcess)
      then batch_loop R api opts allProductsToProcess (i + batchSize opts)
             (process_batch R api opts allProductsToProcess i st)
      else Some st)"

definition init_results :: "nat \<Rightarrow> 'c results" where
  "init_results n =
     \<lparr> total = n, created = 0, updated = 0, skipped = 0, errors = 0,
       createdProducts = [], updatedProducts = [], errorDetails = [] \<rparr>"

definition dispatch ::
  "('a, 'c) renderers \<Rightarrow> ('w, 'c) api \<Rightarrow> options \<Rightarrow> nat \<Rightarrow> ('a, 'c) item list \<Rightarrow> 'w
   \<Rightarrow> (('w, 'c) net \<times> 'c results) option" where
  \<comment> \<open>the run of \<open>processProductsFromCSV\<close> from the fresh \<open>results\<close> object on, for the
      changeset \<open>allProductsToProcess\<close> of a feed of \<open>n\<close> rows\<close>
  "dispatch R api opts n allProductsToProcess w =
     batch_loop R api opts allProductsToProcess 0 ((w, []), init_results n)"

subsection \<open>Building the changeset\<close>

type_synonym 'c index = "string \<rightharpoonup> 'c shop_product"

definition index_product :: "'c index \<times> 'c index \<Rightarrow> 'c shop_product \<Rightarrow> 'c index \<times> 'c index" where
  \<comment> \<open>one round of \<open>existingProducts.forEach\<close>: the pair is (by SKU, by title)\<close>
  "index_product ix product =
     (let byTitle = (snd ix)(toLowerCase (sp_title product) \<mapsto> product);
          variants = (case sp_variants product of None \<Rightarrow> [] | Some vs \<Rightarrow> vs);
          bySku = foldl (\<lambda>m variant. if truthy (sv_sku variant)
                                      then m(toLowerCase (the (sv_sku variant)) \<mapsto> product) else m)
                    (fst ix) variants
      in (bySku, byTitle))"

definition build_index :: "'c shop_product list \<Rightarrow> 'c index \<times> 'c index" where
  "build_index existingProducts = foldl index_product (Map.empty, Map.empty) existingProducts"

definition find_existing :: "'c index \<times> 'c index \<Rightarrow> 'a csv_item_scheme \<Rightarrow> 'c shop_product option" where
  \<comment> \<open>by SKU first, then by title\<close>
  "find_existing ix csvItem =
     (let sku = map_option toLowerCase (Item csvItem);
          title = (if truthy (Description csvItem) then toLowerCase (the (Description csvItem))
                   else if truthy (Item csvItem) then toLowerCase (the (Item csvItem))
                   else [])
      in if truthy sku \<and> fst ix (the sku) \<noteq> None then fst ix (the sku)
         else if title \<noteq> [] \<and> snd ix title \<noteq> None then snd ix title
         else None)"

definition categorize_item ::
  "('a, 'c) renderers \<Rightarrow> 'c index \<times> 'c index \<Rightarrow> bool \<Rightarrow> 'a csv_item_scheme
   \<Rightarrow> ('a, 'c) item list" where
  \<comment> \<open>one round of \<open>csvData.forEach\<close>: the item pushed, if any\<close>
  "categorize_item R ix updates csvItem =
     (case find_existing ix csvItem of
        Some existingProduct \<Rightarrow>
          if updates then
            (let needsUpdate = doesProductNeedUpdate R csvItem existingProduct
             in if hasChanges needsUpdate
                then [UpdateItem csvItem existingProduct (changes needsUpdate)] else [])
          else []
      | None \<Rightarrow> [CreateItem csvItem])"

definition is_create :: "('a, 'c) item \<Rightarrow> bool" where
  "is_create it = (case it of CreateItem _ \<Rightarrow> True | _ \<Rightarrow> False)"

definition categorizeProducts ::
  "('a, 'c) renderers \<Rightarrow> 'a csv_item_scheme list \<Rightarrow> 'c index \<times> 'c index \<Rightarrow> bool
   \<Rightarrow> ('a, 'c) item list \<times> ('a, 'c) item list" where
  \<comment> \<open>(\<open>productsToCreate\<close>, \<open>productsToUpdate\<close>)\<close>
  "categorizeProducts R csvData ix updates =
     (let its = concat (map (categorize_item R ix updates) csvData)
      in (filter is_create its, filter (\<lambda>it. \<not> is_create it) its))"

definition processProductsFromCSV ::
  "('a, 'c) renderers \<Rightarrow> ('w, 'c) api \<Rightarrow> options \<Rightarrow> 'a csv_item_scheme list
   \<Rightarrow> 'c shop_product list \<Rightarrow> 'w \<Rightarrow> (('w, 'c) net \<times> 'c results) option" where
  "processProductsFromCSV R api opts csvData existingProducts w =
     (case categorizeProducts R csvData (build_index existingProducts) (enableUpdates opts) of
        (productsToCreate, productsToUpdate) \<Rightarrow>
          dispatch R api opts (length csvData) (productsToCreate @ productsToUpdate) w)"

section \<open>The transfer manager\<close>

subsection \<open>Choosing the latest file\<close>

text \<open>
  An entry of a remote listing. \<open>f_type\<close> is 1 for a regular file. \<open>modifiedAt\<close> is the
  time value of the entry's date in milliseconds, or \<open>None\<close> when the listing carries no
  parsed date (then \<open>new Date(undefined)\<close> is an invalid date and every difference with
  it is \<open>NaN\<close>).
\<close>

record ftp_file =
  f_name :: string
  f_type :: nat
  f_size :: nat
  modifiedAt :: "int option"

definition endsWith :: "string \<Rightarrow> string \<Rightarrow> bool" where
  "endsWith s t = (length t \<le> length s \<and> drop (length s - length t) s = t)"

definition csvFiles :: "ftp_file list \<Rightarrow> ftp_file list" where
  \<comment> \<open>\<open>fileList.filter(file => file.name.toLowerCase().endsWith('.csv') && file.type === 1)\<close>\<close>
  "csvFiles fileList =
     filter (\<lambda>file. endsWith (toLowerCase (f_name file)) ''.csv'' \<and> f_type file = 1) fileList"

definition listFiles :: "string + ftp_file list \<Rightarrow> string + ftp_file list" where
  \<comment> \<open>the argument is what \<open>client.list\<close> gives: the listing, or the message of the error it
      throws, which \<open>listFiles\<close> throws on\<close>
  "listFiles listing =
     (case listing of
        Inl msg \<Rightarrow> Inl msg
      | Inr fileList \<Rightarrow> Inr (csvFiles fileList))"

definition newest_first :: "ftp_file \<Rightarrow> ftp_file \<Rightarrow> int" where
  \<comment> \<open>\<open>(a, b) => new Date(b.modifiedAt) - new Date(a.modifiedAt)\<close>; \<open>sort\<close> takes a \<open>NaN\<close>
      from the comparator as 0\<close>
  "newest_first a b =
     (case (modifiedAt b, modifiedAt a) of (Some tb, Some ta) \<Rightarrow> tb - ta | _ \<Rightarrow> 0)"

fun insert_by :: "('x \<Rightarrow> 'x \<Rightarrow> int) \<Rightarrow> 'x \<Rightarrow> 'x list \<Rightarrow> 'x list" where
  "insert_by cmp x [] = [x]"
| "insert_by cmp x (y # ys) = (if cmp x y \<le> 0 then x # y # ys else y # insert_by cmp x ys)"

definition js_sort :: "('x \<Rightarrow> 'x \<Rightarrow> int) \<Rightarrow> 'x list \<Rightarrow> 'x list" where
  \<comment> \<open>\<open>Array.prototype.sort\<close> with a comparator: a stable sort, here by insertion from the
      right, so that of two elements the comparator calls equal the earlier one stays first.
      The language fixes the order only for a consistent comparator; \<open>newest_first\<close> is
      one when every file has a date. With an undated file among dated ones it is not, the
      order is then up to the implementation, and this function gives one possible order.\<close>
  "js_sort cmp xs = foldr (insert_by cmp) xs []"

definition getLatestCSVFile :: "string + ftp_file list \<Rightarrow> string + ftp_file" where
  "getLatestCSVFile listing =
     (case listFiles listing of
        Inl msg \<Rightarrow> Inl msg
      | Inr files \<Rightarrow>
          if length files = 0 then Inl ''No CSV files found on FTP server''
          else (case js_sort newest_first files of
                  latestFile # _ \<Rightarrow> Inr latestFile
                | [] \<Rightarrow> Inl ''No CSV files found on FTP server''))"

subsection \<open>Downloading with backup and restore\<close>

text \<open>
  The local file system is a map from paths to file contents. Only regular files are
  modelled, and \<open>renameSync\<close> and \<open>unlinkSync\<close> are taken to succeed (so is \<open>mkdirSync\<close>,
  which leaves no trace in this model).
\<close>

type_synonym filesystem = "string \<rightharpoonup> string"

definition existsSync :: "filesystem \<Rightarrow> string \<Rightarrow> bool" where
  "existsSync fs p = (fs p \<noteq> None)"

definition renameSync :: "filesystem \<Rightarrow> string \<Rightarrow> string \<Rightarrow> filesystem" where
  \<comment> \<open>the target is replaced if it exists\<close>
  "renameSync fs old new = (fs(new := fs old))(old := None)"

definition unlinkSync :: "filesystem \<Rightarrow> string \<Rightarrow> filesystem" where
  "unlinkSync fs p = fs(p := None)"

text \<open>
  \<open>downloadWithProgress\<close> creates a write stream on the destination and hands it to
  the transfer. Creating the stream only requests the open of the file, which creates
  or empties it; the open takes effect later, at a moment the function does not wait
  for. A transfer that delivers data has its stream open first, so the open can still
  be pending only when the promise is rejected. The outcome of a call tells what is found
  at the destination when the promise settles (\<open>None\<close> if no file is there), the
  message of the error if the promise was rejected, and whether the open is then
  still pending: in that case nothing is at the destination yet, and the open takes
  effect after the caller has handled the rejection.
\<close>

record stream_outcome =
  written :: "string option"
  stream_error :: "string option"
  open_pending :: bool

definition opens_late :: "stream_outcome \<Rightarrow> bool" where
  \<comment> \<open>the promise is rejected while the open of the destination is still pending\<close>
  "opens_late out = (open_pending out \<and> stream_error out \<noteq> None)"

definition downloadWithProgress ::
  "stream_outcome \<Rightarrow> filesystem \<Rightarrow> string \<Rightarrow> filesystem \<times> string option" where
  \<comment> \<open>the file system when the promise settles, and the rejection if any\<close>
  "downloadWithProgress out fs localFilePath =
     ((if opens_late out then fs else fs(localFilePath := written out)), stream_error out)"

definition late_open :: "stream_outcome \<Rightarrow> filesystem \<Rightarrow> string \<Rightarrow> filesystem" where
  \<comment> \<open>a pending open of \<open>fs.createWriteStream(localFilePath)\<close> takes effect: the file is
      created, or emptied if it exists; the stream, destroyed by then, writes nothing\<close>
  "late_open out fs localFilePath = (if opens_late out then fs(localFilePath \<mapsto> []) else fs)"

definition remote_size :: "string + ftp_file list \<Rightarrow> string \<Rightarrow> nat" where
  \<comment> \<open>\<open>remoteFileSize\<close>: the size of the listed entry with the remote name, 0 when the
      listing fails or has no such entry\<close>
  "remote_size listing remoteFilePath =
     (case listing of
        Inl _ \<Rightarrow> 0
      | Inr fileList \<Rightarrow>
          (case find (\<lambda>file. f_name file = remoteFilePath) fileList of
             None \<Rightarrow> 0
           | Some targetFile \<Rightarrow> f_size targetFile))"

definition backup_path :: "string \<Rightarrow> string" where
  "backup_path localFilePath = localFilePath @ ''.backup''"

definition backup_existing :: "filesystem \<Rightarrow> string \<Rightarrow> filesystem" where
  \<comment> \<open>\<open>if (fs.existsSync(localFilePath)) fs.renameSync(localFilePath, backupFilePath)\<close>\<close>
  "backup_existing fs localFilePath =
     (if existsSync fs localFilePath
      then renameSync fs localFilePath (backup_path localFilePath) else fs)"

datatype download_error =
  StreamFailed string
| NotFoundLocally
| SizeMismatch nat nat

definition download_try ::
  "string + ftp_file list \<Rightarrow> stream_outcome \<Rightarrow> filesystem \<Rightarrow> string \<Rightarrow> string
   \<Rightarrow> filesystem \<times> (download_error + string)" where
  \<comment> \<open>the \<open>try\<close> block: the file system when the block is left, and the path returned or
      the error thrown\<close>
  "download_try listing out fs remoteFilePath localFilePath =
     (let fs1 = backup_existing fs localFilePath;
          remoteFileSize = remote_size listing remoteFilePath;
          (fs2, rejected) = downloadWithProgress out fs1 localFilePath
      in case rejected of
           Some msg \<Rightarrow> (fs2, Inl (StreamFailed msg))
         | None \<Rightarrow>
             (case fs2 localFilePath of
                None \<Rightarrow> (fs2, Inl NotFoundLocally)
              | Some content \<Rightarrow>
                  if remoteFileSize > 0
                     \<and> \<bar>int (length content) - int remoteFileSize\<bar> > 1024
                  then (fs2, Inl (SizeMismatch (length content) remoteFileSize))
                  else ((if existsSync fs2 (backup_path localFilePath)
                         then unlinkSync fs2 (backup_path localFilePath) else fs2),
                        Inr localFilePath)))"

definition download_catch :: "filesystem \<Rightarrow> string \<Rightarrow> filesystem" where
  \<comment> \<open>the \<open>catch\<close> block, before it throws the error again\<close>
  "download_catch fs localFilePath =
     (if existsSync fs (backup_path localFilePath)
      then renameSync
             (if existsSync fs localFilePath then unlinkSync fs localFilePath else fs)
             (backup_path localFilePath) localFilePath
      else if existsSync fs localFilePath then unlinkSync fs localFilePath else fs)"

definition downloadFile ::
  "string + ftp_file list \<Rightarrow> stream_outcome \<Rightarrow> filesystem \<Rightarrow> string \<Rightarrow> string
   \<Rightarrow> filesystem \<times> (download_error + string)" where
  \<comment> \<open>the file system that the call leaves behind, and the path returned or the error
      thrown; an open that was pending when the \<open>catch\<close> block ran takes effect after it\<close>
  "downloadFile listing out fs remoteFilePath localFilePath =
     (case download_try listing out fs remoteFilePath localFilePath of
        (fs', Inr p) \<Rightarrow> (fs', Inr p)
      | (fs', Inl err) \<Rightarrow>
          (late_open out (download_catch fs' localFilePath) localFilePath, Inl err))"

section \<open>The job and its guard\<close>

text \<open>
  \<open>executeJob\<close> is an \<open>async\<close> function. A call runs without interruption up to its first
  \<open>await\<close>: it tests \<open>isRunning\<close> and either returns or sets the flag. The body of the run
  then proceeds across \<open>await\<close>s, between which other triggers can fire; when the body
  ends, by finishing or by an error that the \<open>catch\<close> block logs, the \<open>finally\<close> block
  closes the connection (\<open>close\<close> catches its own errors) and clears the flag. The state
  keeps the flag, the log, and the number of runs that are past the guard and have not
  reached the end of \<open>finally\<close>.
\<close>

record job =
  isRunning :: bool
  active :: nat
  job_log :: "string list"

datatype job_event = Trigger | BodyEnds bool

definition executeJob_enter :: "job \<Rightarrow> job" where
  \<comment> \<open>a call of \<open>executeJob\<close> up to the \<open>try\<close>\<close>
  "executeJob_enter j =
     (if isRunning j
      then j\<lparr>job_log := job_log j @ [''Job is already running, skipping this execution'']\<rparr>
      else j\<lparr>isRunning := True, active := active j + 1\<rparr>)"

definition executeJob_leave :: "bool \<Rightarrow> job \<Rightarrow> job" where
  \<comment> \<open>the end of the body of a run that is under way (\<open>ok\<close>: without an error), through
      \<open>catch\<close> and \<open>finally\<close>\<close>
  "executeJob_leave ok j =
     (if active j = 0 then j
      else (let j1 = (if ok then j else j\<lparr>job_log := job_log j @ [''Job execution failed:'']\<rparr>)
            in j1\<lparr>job_log := job_log j1 @ [''FTP connection closed''],
                  isRunning := False, active := active j1 - 1\<rparr>))"

definition job_step :: "job \<Rightarrow> job_event \<Rightarrow> job" where
  "job_step j e = (case e of Trigger \<Rightarrow> executeJob_enter j | BodyEnds ok \<Rightarrow> executeJob_leave ok j)"

definition new_job :: job where
  \<comment> \<open>the constructor\<close>
  "new_job = \<lparr> isRunning = False, active = 0, job_log = [] \<rparr>"

definition run_events :: "job_event list \<Rightarrow> job" where
  "run_events es = foldl job_step new_job es"

section \<open>Example data\<close>

text \<open>
  A feed row, a catalog product that matches it, and constant renderers, used to run the
  definitions on concrete inputs. The row and the product agree in every compared field
  when the price is \<open>10.00\<close>, the quantity 5 and no compare-at price is set.
\<close>

definition example_renderers :: "(unit, nat) renderers" where
  "example_renderers =
     \<lparr> generateProductDescription = (\<lambda>_. ''<h3>Gold Ring</h3>''),
       extractProductType = (\<lambda>_. ''Rings''),
       generateTags = (\<lambda>_. ''14k''),
       createImages = (\<lambda>_. []),
       getCategoryId = (\<lambda>_. 340) \<rparr>"

definition example_row :: "string option \<Rightarrow> string option \<Rightarrow> string \<Rightarrow> csv_item" where
  "example_row msrp contract qty =
     \<lparr> Item = Some ''Q1'', Description = Some ''Gold Ring'', Status = Some ''Active'',
       MSRP = msrp, ContractPrice = contract, Qty_Avail = Some qty, Weight = Some ''1'',
       UPC = Some ''0123'' \<rparr>"

definition example_existing :: "string \<Rightarrow> string option \<Rightarrow> int \<Rightarrow> nat shop_product" where
  "example_existing price compare qty =
     \<lparr> sp_id = 7, sp_title = ''Gold Ring'', sp_body_html = Some ''<h3>Gold Ring</h3>'',
       sp_product_type = Some ''Rings'', sp_tags = Some ''14k'', sp_status = Some ''active'',
       sp_product_category_id = None,
       sp_variants = Some [\<lparr> sv_id = 70, sv_sku = Some ''Q1'', sv_barcode = Some ''0123'',
                              sv_price = Some price, sv_compare_at_price = compare,
                              sv_inventory_quantity = Some qty, sv_weight = Some 28 \<rparr>],
       sp_images = Some [] \<rparr>"

section \<open>Notions used to state what the dispatcher does\<close>

definition request_of :: "('a, 'c) renderers \<Rightarrow> ('a, 'c) item \<Rightarrow> 'c api_call" where
  \<comment> \<open>the request that the operation of an item sends when it is not a dry run\<close>
  "request_of R it =
     (case it of
        CreateItem csvItem \<Rightarrow> CreateProduct (mapCSVToShopifyProduct R csvItem)
      | UpdateItem csvItem existingProduct chs \<Rightarrow>
          UpdateProduct (sp_id existingProduct)
            (buildUpdateData (mapCSVToShopifyProduct R csvItem) existingProduct chs))"

fun api_responses :: "('w, 'c) api \<Rightarrow> 'w \<Rightarrow> 'c api_call list \<Rightarrow> (string + 'c shop_product) list" where
  \<comment> \<open>the answers of the API to a sequence of requests, from the world \<open>w\<close> on\<close>
  "api_responses api w [] = []"
| "api_responses api w (c # cs) = (case api w c of (r, w') \<Rightarrow> r # api_responses api w' cs)"

fun api_world :: "('w, 'c) api \<Rightarrow> 'w \<Rightarrow> 'c api_call list \<Rightarrow> 'w" where
  \<comment> \<open>the world after a sequence of requests\<close>
  "api_world api w [] = w"
| "api_world api w (c # cs) = (case api w c of (r, w') \<Rightarrow> api_world api w' cs)"

definition outcome_of :: "('a, 'c) item \<Rightarrow> string + 'c shop_product \<Rightarrow> 'c settled" where
  \<comment> \<open>what the promise of an item is fulfilled with, given the answer to its request\<close>
  "outcome_of it r =
     (case r of
        Inl msg \<Rightarrow> Fulfilled (Failed msg (item_name it))
      | Inr p \<Rightarrow> Fulfilled (Success (if is_create it then Created else Updated) (RemoteProduct p)))"

definition accounted :: "'c results \<Rightarrow> nat" where
  \<comment> \<open>\<open>created + updated + skipped + errors\<close>\<close>
  "accounted res = created res + updated res + skipped res + errors res"

definition is_BatchStart :: "'c event \<Rightarrow> bool" where
  "is_BatchStart e = (case e of BatchStart _ _ \<Rightarrow> True | _ \<Rightarrow> False)"

definition is_Net :: "'c event \<Rightarrow> bool" where
  "is_Net e = (case e of Net _ \<Rightarrow> True | _ \<Rightarrow> False)"

function batch_starts :: "int \<Rightarrow> int \<Rightarrow> int \<Rightarrow> int list" where
  \<comment> \<open>the positions \<open>i, i + B, i + 2B, ...\<close> below \<open>N\<close>, for a positive \<open>B\<close>\<close>
  "batch_starts B N i = (if 0 < B \<and> i < N then i # batch_starts B N (i + B) else [])"
  by pat_completeness auto
termination
  by (relation "measure (\<lambda>(B, N, i). nat (N - i))") auto

declare batch_starts.simps [simp del]

definition example_options :: "bool \<Rightarrow> bool \<Rightarrow> options" where
  \<comment> \<open>the default options, with the given \<open>dryRun\<close> and \<open>parallelBatch\<close>\<close>
  "example_options dry par =
     \<lparr> batchSize = 10, delayBetweenBatches = 1000, dryRun = dry, parallelBatch = par,
       enableUpdates = True \<rparr>"

definition example_api :: "(nat, nat) api" where
  \<comment> \<open>an API that fails every second request; the world counts the requests\<close>
  "example_api w c =
     (if even w then (Inr (example_existing ''10.00'' None 5), Suc w)
      else (Inl ''Request failed with status code 429'', Suc w))"

section \<open>Properties of handle generation\<close>

lemma replace_runs_set:
  "c \<in> set (replace_runs P r s) \<Longrightarrow> c = r \<or> (c \<in> set s \<and> \<not> P c)"
proof (induction P r s rule: replace_runs.induct)
  case (1 P r)
  then show ?case by simp
next
  case (2 P r d ds)
  then show ?case by (auto split: if_splits dest: set_dropWhileD)
qed

lemma replace_runs_dropWhile_head:
  "replace_runs P r (dropWhile P cs) = [] \<or> \<not> P (hd (replace_runs P r (dropWhile P cs)))"
proof (cases "dropWhile P cs")
  case Nil
  then show ?thesis by (simp del: dropWhile_eq_Nil_conv)
next
  case (Cons d ds)
  then have "\<not> P d" by (metis hd_dropWhile list.distinct(1) list.sel(1))
  with Cons show ?thesis by simp
qed

lemma no_adjacent_Cons:
  "no_adjacent P (a # s) = ((s = [] \<or> \<not> (P a \<and> P (hd s))) \<and> no_adjacent P s)"
  by (cases s) auto

lemma replace_runs_no_adjacent:
  "no_adjacent P (replace_runs P r s)"
proof (induction P r s rule: replace_runs.induct)
  case (1 P r)
  then show ?case by simp
next
  case (2 P r c cs)
  show ?case
  proof (cases "P c")
    case True
    with 2 have ih: "no_adjacent P (replace_runs P r (dropWhile P cs))" by simp
    from replace_runs_dropWhile_head [of P r cs] ih True show ?thesis
      by (auto simp: no_adjacent_Cons)
  next
    case False
    with 2 have ih: "no_adjacent P (replace_runs P r cs)" by simp
    with False show ?thesis by (simp add: no_adjacent_Cons)
  qed
qed

lemma replace_runs_none:
  "\<forall>c \<in> set s. \<not> P c \<Longrightarrow> replace_runs P r s = s"
  by (induction s) auto

lemma replace_runs_hyphen_id:
  "no_adjacent is_hyphen s \<Longrightarrow> replace_runs is_hyphen CHR ''-'' s = s"
proof (induction s)
  case Nil
  then show ?case by simp
next
  case (Cons c cs)
  then have ih: "replace_runs is_hyphen CHR ''-'' cs = cs" by (simp add: no_adjacent_Cons)
  show ?case
  proof (cases "is_hyphen c")
    case True
    with Cons.prems have "cs = [] \<or> \<not> is_hyphen (hd cs)" by (simp add: no_adjacent_Cons)
    then have "dropWhile is_hyphen cs = cs" by (cases cs) auto
    moreover from True have "c = CHR ''-''" by (simp add: is_hyphen_def)
    ultimately show ?thesis using True ih by simp
  next
    case False
    with ih show ?thesis by simp
  qed
qed

lemma no_adjacent_tl: "no_adjacent P s \<Longrightarrow> no_adjacent P (tl s)"
  by (cases s) (auto simp: no_adjacent_Cons)

lemma no_adjacent_take: "no_adjacent P s \<Longrightarrow> no_adjacent P (take n s)"
proof (induction s arbitrary: n)
  case Nil
  then show ?case by simp
next
  case (Cons a s)
  show ?case
  proof (cases n)
    case 0
    then show ?thesis by simp
  next
    case (Suc m)
    from Cons have "no_adjacent P (take m s)" by (simp add: no_adjacent_Cons)
    moreover have "take m s = [] \<or> hd (take m s) = hd s" by (cases m; cases s) auto
    moreover have "take m s \<noteq> [] \<Longrightarrow> s \<noteq> []" by auto
    ultimately show ?thesis using Cons.prems Suc by (auto simp: no_adjacent_Cons)
  qed
qed

lemma no_adjacent_butlast: "no_adjacent P s \<Longrightarrow> no_adjacent P (butlast s)"
  by (metis butlast_conv_take no_adjacent_take)

lemma trim_hyphens_set: "set (trim_hyphens s) \<subseteq> set s"
  by (auto simp: trim_hyphens_def Let_def split: list.splits if_splits dest: in_set_butlastD)

lemma trim_hyphens_cases:
  "trim_hyphens s = s \<or> trim_hyphens s = tl s \<or> trim_hyphens s = butlast s
     \<or> trim_hyphens s = butlast (tl s)"
  by (cases s) (auto simp: trim_hyphens_def)

lemma trim_hyphens_no_adjacent: "no_adjacent P s \<Longrightarrow> no_adjacent P (trim_hyphens s)"
  using trim_hyphens_cases [of s] no_adjacent_butlast [of P s] no_adjacent_tl [of P s]
    no_adjacent_butlast [of P "tl s"] by auto

lemma hd_butlast_keep: "butlast t \<noteq> [] \<Longrightarrow> hd (butlast t) = hd t"
  by (cases t) (auto split: if_splits)

lemma trim_hyphens_head:
  assumes "no_adjacent is_hyphen s" and "trim_hyphens s \<noteq> []"
  shows "hd (trim_hyphens s) \<noteq> CHR ''-''"
proof (cases s)
  case Nil
  with assms show ?thesis by (simp add: trim_hyphens_def)
next
  case (Cons c cs)
  define t where "t = (if c = CHR ''-'' then cs else s)"
  have t: "t = [] \<or> hd t \<noteq> CHR ''-''"
    using assms(1) Cons by (auto simp: t_def no_adjacent_Cons is_hyphen_def)
  have tr: "trim_hyphens s = (if t \<noteq> [] \<and> last t = CHR ''-'' then butlast t else t)"
    using Cons by (simp add: trim_hyphens_def t_def)
  show ?thesis using t assms(2) tr hd_butlast_keep [of t] by (auto split: if_splits)
qed

lemma slug_char_code:
  "slug_char c \<Longrightarrow> toLowerCase_char c = c \<and> handle_char c \<and> \<not> is_space c"
  by (auto simp: slug_char_def toLowerCase_char_def handle_char_def is_space_def is_hyphen_def
      is_lower_az_def is_digit_def code_unit_def Let_def)

lemma handle_char_slug: "handle_char c \<Longrightarrow> \<not> is_space c \<Longrightarrow> slug_char c"
  by (auto simp: slug_char_def handle_char_def)

lemma not_space_hyphen: "\<not> is_space CHR ''-''"  "slug_char CHR ''-''"
  by (simp_all add: is_space_def code_unit_def slug_char_def is_hyphen_def)

lemma generateHandle_chain_clean: "clean_handle (generateHandle_chain t)"
proof -
  define a where "a = filter handle_char (toLowerCase t)"
  define b where "b = replace_runs is_space CHR ''-'' a"
  define c where "c = replace_runs is_hyphen CHR ''-'' b"
  define d where "d = trim_hyphens c"
  have sb: "generateHandle_chain t = take 100 d"
    by (simp add: generateHandle_chain_def a_def b_def c_def d_def)
  have a: "\<forall>x \<in> set a. handle_char x" by (simp add: a_def)
  have b: "\<forall>x \<in> set b. slug_char x"
  proof
    fix x assume "x \<in> set b"
    then have "x = CHR ''-'' \<or> (x \<in> set a \<and> \<not> is_space x)"
      unfolding b_def by (rule replace_runs_set)
    with a show "slug_char x"
      by (auto intro: handle_char_slug simp: not_space_hyphen)
  qed
  have c: "\<forall>x \<in> set c. slug_char x"
  proof
    fix x assume "x \<in> set c"
    then have "x = CHR ''-'' \<or> (x \<in> set b \<and> \<not> is_hyphen x)"
      unfolding c_def by (rule replace_runs_set)
    with b show "slug_char x"
      by (auto simp: not_space_hyphen)
  qed
  have cn: "no_adjacent is_hyphen c"
    unfolding c_def by (rule replace_runs_no_adjacent)
  have d: "\<forall>x \<in> set d. slug_char x"
    unfolding d_def using c trim_hyphens_set [of c] by auto
  have dn: "no_adjacent is_hyphen d"
    unfolding d_def using cn by (rule trim_hyphens_no_adjacent)
  have dh: "d \<noteq> [] \<longrightarrow> hd d \<noteq> CHR ''-''"
    unfolding d_def using cn trim_hyphens_head by blast
  have "\<forall>x \<in> set (take 100 d). slug_char x"
    using d by (auto dest: in_set_takeD)
  moreover have "no_adjacent is_hyphen (take 100 d)"
    using dn by (rule no_adjacent_take)
  moreover have "take 100 d \<noteq> [] \<longrightarrow> hd (take 100 d) \<noteq> CHR ''-''"
    using dh by (cases d) auto
  ultimately show ?thesis by (simp add: clean_handle_def sb)
qed

lemma generateHandle_chain_length: "length (generateHandle_chain t) \<le> 100"
  by (simp add: generateHandle_chain_def)

lemma generateHandle_chain_on_clean:
  assumes "clean_handle s" and "length s \<le> 100"
  shows "generateHandle_chain s = (if s \<noteq> [] \<and> last s = CHR ''-'' then butlast s else s)"
proof -
  from assms(1) have ch: "\<forall>c \<in> set s. slug_char c" and na: "no_adjacent is_hyphen s"
    and hd: "s \<noteq> [] \<longrightarrow> hd s \<noteq> CHR ''-''"
    by (simp_all add: clean_handle_def)
  have 1: "toLowerCase s = s"
    unfolding toLowerCase_def using ch by (simp add: map_idI slug_char_code)
  have 2: "filter handle_char s = s"
    using ch by (simp add: slug_char_code)
  have 3: "replace_runs is_space CHR ''-'' s = s"
    using ch by (simp add: replace_runs_none slug_char_code)
  have 4: "replace_runs is_hyphen CHR ''-'' s = s"
    using na by (rule replace_runs_hyphen_id)
  have 5: "trim_hyphens s = (if s \<noteq> [] \<and> last s = CHR ''-'' then butlast s else s)"
    using hd by (cases s) (auto simp: trim_hyphens_def)
  show ?thesis
    using assms(2) by (auto simp: generateHandle_chain_def 1 2 3 4 5)
qed

lemma generateHandle_twice:
  "generateHandle (Some (generateHandle t)) =
     (let h = generateHandle t
      in if h = [] then ''product'' else if last h = CHR ''-'' then butlast h else h)"
proof (cases "\<exists>x. t = Some x \<and> x \<noteq> []")
  case True
  then obtain x where t: "t = Some x" "x \<noteq> []" by blast
  then have h: "generateHandle t = generateHandle_chain x"
    by (simp add: generateHandle_def generateHandle_chain_def)
  show ?thesis
  proof (cases "generateHandle_chain x = []")
    case True
    with h show ?thesis by (simp add: generateHandle_def)
  next
    case False
    then have "generateHandle (Some (generateHandle_chain x)) = generateHandle_chain (generateHandle_chain x)"
      by (simp add: generateHandle_def generateHandle_chain_def)
    with False h generateHandle_chain_on_clean [OF generateHandle_chain_clean generateHandle_chain_length, of x]
    show ?thesis by (simp add: Let_def)
  qed
next
  case False
  then have h: "generateHandle t = ''product''"
    by (cases t) (auto simp: generateHandle_def)
  have "generateHandle (Some ''product'') = ''product''"
    by code_simp
  then show ?thesis
    by (simp add: h)
qed

text \<open>
  Claim C8, as amended. Applying \<open>generateHandle\<close> to its own result gives the result
  back whenever that result is not empty and does not end in a hyphen. The two excluded
  cases are real: a title with no letter or digit gives the empty handle, which the next
  application turns into \<open>product\<close>; and the cut at 100 characters is made after the
  trailing hyphen was trimmed, so it can leave a hyphen at the end, which the next
  application trims (see \<open>generateHandle_twice\<close> for the exact result).
\<close>

theorem generateHandle_idempotent_clean:
  assumes "generateHandle (Some x) \<noteq> []"
    and "last (generateHandle (Some x)) \<noteq> CHR ''-''"
  shows "generateHandle (Some (generateHandle (Some x))) = generateHandle (Some x)"
  using assms generateHandle_twice [of "Some x"] by (simp add: Let_def)

theorem generateHandle_idempotent_clean_witness:
  "generateHandle (Some ''14K Gold  Ring'') \<noteq> []
   \<and> last (generateHandle (Some ''14K Gold  Ring'')) \<noteq> CHR ''-''
   \<and> generateHandle (Some ''14K Gold  Ring'') = ''14k-gold-ring''
   \<and> generateHandle (Some (generateHandle (Some ''14K Gold  Ring''))) = ''14k-gold-ring''"
proof -
  have e: "generateHandle (Some ''14K Gold  Ring'') = ''14k-gold-ring''"
    by code_simp
  have 1: "generateHandle (Some ''14K Gold  Ring'') \<noteq> []" by (simp add: e)
  have 2: "last (generateHandle (Some ''14K Gold  Ring'')) \<noteq> CHR ''-''" by (simp add: e)
  from generateHandle_idempotent_clean [OF 1 2] e show ?thesis by simp
qed

theorem generateHandle_idempotent_counterexample:
  "generateHandle (Some (generateHandle (Some ''!''))) \<noteq> generateHandle (Some ''!'')
   \<and> generateHandle (Some (generateHandle (Some (replicate 99 CHR ''a'' @ '' b''))))
       \<noteq> generateHandle (Some (replicate 99 CHR ''a'' @ '' b''))"
  by code_simp

section \<open>Properties of the choice of the latest file\<close>

lemma js_sort_Cons: "js_sort cmp (x # xs) = insert_by cmp x (js_sort cmp xs)"
  by (simp add: js_sort_def)

lemma js_sort_newest_head:
  assumes "\<forall>f \<in> set xs. modifiedAt f \<noteq> None" and "xs \<noteq> []"
  shows "\<exists>pre f post rest. js_sort newest_first xs = f # rest \<and> xs = pre @ f # post
           \<and> (\<forall>g \<in> set pre. the (modifiedAt g) < the (modifiedAt f))
           \<and> (\<forall>g \<in> set post. the (modifiedAt g) \<le> the (modifiedAt f))"
  using assms
proof (induction xs)
  case Nil
  then show ?case by simp
next
  case (Cons x xs)
  show ?case
  proof (cases "xs = []")
    case True
    then have "js_sort newest_first (x # xs) = [x]" by (simp add: js_sort_def)
    with True show ?thesis by fastforce
  next
    case False
    with Cons obtain pre f post rest where
      s: "js_sort newest_first xs = f # rest" and x: "xs = pre @ f # post"
      and p: "\<forall>g \<in> set pre. the (modifiedAt g) < the (modifiedAt f)"
      and q: "\<forall>g \<in> set post. the (modifiedAt g) \<le> the (modifiedAt f)"
      by auto
    from Cons.prems x obtain tx tf where tx: "modifiedAt x = Some tx" and tf: "modifiedAt f = Some tf"
      by auto
    have c: "newest_first x f = tf - tx" by (simp add: newest_first_def tx tf)
    show ?thesis
    proof (cases "tf \<le> tx")
      case True
      then have "js_sort newest_first (x # xs) = x # f # rest"
        by (simp add: js_sort_Cons s c)
      moreover have "\<forall>g \<in> set xs. the (modifiedAt g) \<le> the (modifiedAt x)"
        using p q True x tx tf by fastforce
      ultimately show ?thesis by (metis append_Nil empty_iff list.set(1))
    next
      case False
      then have "js_sort newest_first (x # xs) = f # insert_by newest_first x rest"
        by (simp add: js_sort_Cons s c)
      moreover have "x # xs = (x # pre) @ f # post" by (simp add: x)
      moreover have "\<forall>g \<in> set (x # pre). the (modifiedAt g) < the (modifiedAt f)"
        using p False tx tf by auto
      ultimately show ?thesis using q by blast
    qed
  qed
qed

text \<open>
  Claim C6, as amended. Let the files of the listing that pass the filter (a name that ends
  in \<open>.csv\<close> in any letter case, and the type of a regular file) all carry a modification
  time. If there is no such file, \<open>getLatestCSVFile\<close> fails. Otherwise it returns one of
  them whose time is the most recent, and among several with that time the one listed
  first: every file listed before it is strictly older, no file listed after it is newer.
\<close>

theorem getLatestCSVFile_newest:
  assumes "\<forall>f \<in> set (csvFiles fileList). modifiedAt f \<noteq> None"
  shows "(csvFiles fileList = [] \<longrightarrow>
            getLatestCSVFile (Inr fileList) = Inl ''No CSV files found on FTP server'')
       \<and> (csvFiles fileList \<noteq> [] \<longrightarrow>
            (\<exists>pre f post. getLatestCSVFile (Inr fileList) = Inr f
               \<and> csvFiles fileList = pre @ f # post
               \<and> (\<forall>g \<in> set pre. the (modifiedAt g) < the (modifiedAt f))
               \<and> (\<forall>g \<in> set post. the (modifiedAt g) \<le> the (modifiedAt f))))"
proof (intro conjI impI)
  assume "csvFiles fileList = []"
  then show "getLatestCSVFile (Inr fileList) = Inl ''No CSV files found on FTP server''"
    by (simp add: getLatestCSVFile_def listFiles_def )
next
  assume ne: "csvFiles fileList \<noteq> []"
  from js_sort_newest_head [OF assms ne] obtain pre f post rest where
    s: "js_sort newest_first (csvFiles fileList) = f # rest"
    and r: "csvFiles fileList = pre @ f # post"
      "\<forall>g \<in> set pre. the (modifiedAt g) < the (modifiedAt f)"
      "\<forall>g \<in> set post. the (modifiedAt g) \<le> the (modifiedAt f)"
    by blast
  have "getLatestCSVFile (Inr fileList) = Inr f"
    using ne s by (simp add: getLatestCSVFile_def listFiles_def )
  with r show "\<exists>pre f post. getLatestCSVFile (Inr fileList) = Inr f
               \<and> csvFiles fileList = pre @ f # post
               \<and> (\<forall>g \<in> set pre. the (modifiedAt g) < the (modifiedAt f))
               \<and> (\<forall>g \<in> set post. the (modifiedAt g) \<le> the (modifiedAt f))"
    by blast
qed

theorem getLatestCSVFile_newest_witness:
  "map modifiedAt (csvFiles
        [\<lparr>f_name = ''a.csv'', f_type = 1, f_size = 10, modifiedAt = Some 5\<rparr>,
         \<lparr>f_name = ''b.CSV'', f_type = 1, f_size = 10, modifiedAt = Some 7\<rparr>,
         \<lparr>f_name = ''c.txt'', f_type = 1, f_size = 10, modifiedAt = Some 9\<rparr>,
         \<lparr>f_name = ''d.csv'', f_type = 1, f_size = 10, modifiedAt = Some 7\<rparr>])
     = [Some 5, Some 7, Some 7]
   \<and> getLatestCSVFile (Inr
        [\<lparr>f_name = ''a.csv'', f_type = 1, f_size = 10, modifiedAt = Some 5\<rparr>,
         \<lparr>f_name = ''b.CSV'', f_type = 1, f_size = 10, modifiedAt = Some 7\<rparr>,
         \<lparr>f_name = ''c.txt'', f_type = 1, f_size = 10, modifiedAt = Some 9\<rparr>,
         \<lparr>f_name = ''d.csv'', f_type = 1, f_size = 10, modifiedAt = Some 7\<rparr>])
     = Inr \<lparr>f_name = ''b.CSV'', f_type = 1, f_size = 10, modifiedAt = Some 7\<rparr>
   \<and> getLatestCSVFile (Inr [\<lparr>f_name = ''c.txt'', f_type = 1, f_size = 10, modifiedAt = Some 9\<rparr>])
     = Inl ''No CSV files found on FTP server''"
proof -
  let ?l = "[\<lparr>f_name = ''a.csv'', f_type = 1, f_size = 10, modifiedAt = Some 5\<rparr>,
         \<lparr>f_name = ''b.CSV'', f_type = 1, f_size = 10, modifiedAt = Some 7\<rparr>,
         \<lparr>f_name = ''c.txt'', f_type = 1, f_size = 10, modifiedAt = Some 9\<rparr>,
         \<lparr>f_name = ''d.csv'', f_type = 1, f_size = 10, modifiedAt = Some 7\<rparr>]"
  let ?m = "[\<lparr>f_name = ''c.txt'', f_type = 1, f_size = 10, modifiedAt = Some 9\<rparr>]"
  have c: "csvFiles ?l =
        [\<lparr>f_name = ''a.csv'', f_type = 1, f_size = 10, modifiedAt = Some 5\<rparr>,
         \<lparr>f_name = ''b.CSV'', f_type = 1, f_size = 10, modifiedAt = Some 7\<rparr>,
         \<lparr>f_name = ''d.csv'', f_type = 1, f_size = 10, modifiedAt = Some 7\<rparr>]"
    by code_simp
  have d: "csvFiles ?m = []"
    by code_simp
  have h: "\<forall>f \<in> set (csvFiles ?l). modifiedAt f \<noteq> None" unfolding c by simp
  have k: "\<forall>f \<in> set (csvFiles ?m). modifiedAt f \<noteq> None" unfolding d by simp
  have e: "getLatestCSVFile (Inr ?l)
             = Inr \<lparr>f_name = ''b.CSV'', f_type = 1, f_size = 10, modifiedAt = Some 7\<rparr>"
    by code_simp
  have m: "map modifiedAt (csvFiles ?l) = [Some 5, Some 7, Some 7]" unfolding c by simp
  from getLatestCSVFile_newest [OF h] getLatestCSVFile_newest [OF k] m d e
  show ?thesis by simp
qed

theorem getLatestCSVFile_tie_counterexample:
  "getLatestCSVFile (Inr [\<lparr>f_name = ''a.csv'', f_type = 1, f_size = 10, modifiedAt = Some 5\<rparr>,
                          \<lparr>f_name = ''b.csv'', f_type = 1, f_size = 10, modifiedAt = Some 5\<rparr>])
     = Inr \<lparr>f_name = ''a.csv'', f_type = 1, f_size = 10, modifiedAt = Some 5\<rparr>
   \<and> ''a.csv'' < ''b.csv''"
  by (simp add: getLatestCSVFile_def listFiles_def csvFiles_def js_sort_def newest_first_def
      endsWith_def toLowerCase_def toLowerCase_char_def code_unit_def)

section \<open>Properties of the download\<close>

lemma backup_path_neq [simp]: "backup_path p \<noteq> p" "p \<noteq> backup_path p"
  by (simp_all add: backup_path_def)

lemma backup_existing_eq:
  "backup_existing fs p =
     fs(p := None, backup_path p := (case fs p of Some c \<Rightarrow> Some c | None \<Rightarrow> fs (backup_path p)))"
  by (auto simp: backup_existing_def existsSync_def renameSync_def fun_eq_iff split: option.splits)

lemma download_catch_eq:
  "download_catch fs p = fs(p := fs (backup_path p), backup_path p := None)"
  by (auto simp: download_catch_def existsSync_def renameSync_def unlinkSync_def fun_eq_iff)

lemma download_try_result:
  "snd (download_try listing out fs remote p) =
     (case stream_error out of
        Some msg \<Rightarrow> Inl (StreamFailed msg)
      | None \<Rightarrow>
          (case written out of
             None \<Rightarrow> Inl NotFoundLocally
           | Some content \<Rightarrow>
               if 0 < remote_size listing remote
                  \<and> 1024 < \<bar>int (length content) - int (remote_size listing remote)\<bar>
               then Inl (SizeMismatch (length content) (remote_size listing remote))
               else Inr p))"
  by (simp add: download_try_def downloadWithProgress_def opens_late_def Let_def
      split: option.splits)

lemma download_try_fs:
  "fst (download_try listing out fs remote p) =
     (if opens_late out then backup_existing fs p
      else if snd (download_try listing out fs remote p) = Inr p
      then fs(p := written out, backup_path p := None)
      else (backup_existing fs p)(p := written out))"
  by (auto simp: download_try_def downloadWithProgress_def opens_late_def Let_def
      backup_existing_eq existsSync_def unlinkSync_def fun_eq_iff split: option.splits)

lemma downloadFile_result:
  "snd (downloadFile listing out fs remote p) = snd (download_try listing out fs remote p)"
  by (cases "download_try listing out fs remote p")
     (auto simp: downloadFile_def split: sum.splits)

lemma downloadFile_fs:
  "fst (downloadFile listing out fs remote p) =
     (case snd (download_try listing out fs remote p) of
        Inr x \<Rightarrow> fst (download_try listing out fs remote p)
      | Inl e \<Rightarrow> late_open out (download_catch (fst (download_try listing out fs remote p)) p) p)"
  by (cases "download_try listing out fs remote p")
     (auto simp: downloadFile_def split: sum.splits)

lemma success_path: "snd (download_try listing out fs remote p) = Inr x \<Longrightarrow> x = p \<and> \<not> opens_late out"
  by (auto simp: download_try_result opens_late_def split: option.splits if_splits)

text \<open>
  Claim C7, as amended. A file found at the destination is moved to the \<open>.backup\<close> path
  before the stream writes (it is not deleted). The call fails, and with which error, exactly
  as follows: a rejected stream fails it with the stream's error, a destination that is
  missing after the stream has finished fails it, and so does a size that is off by more
  than 1024 bytes from a known remote size; otherwise it returns the destination path.
  When it returns, the destination holds what the stream wrote and no backup is left.
  When it fails, no backup is left and, unless the open of the destination was still pending
  when the stream was rejected, the destination holds again what it held before the call,
  what the stream wrote being gone. If nothing was at the destination before the call, it
  holds after a failure what an earlier \<open>.backup\<close> file held, and nothing if there was none.
  No other path changes.
\<close>

theorem downloadFile_backup_and_restore:
  "(fs p = Some c \<longrightarrow>
      backup_existing fs p (backup_path p) = Some c \<and> backup_existing fs p p = None)
   \<and> (stream_error out = Some msg \<longrightarrow>
        snd (downloadFile listing out fs remote p) = Inl (StreamFailed msg))
   \<and> (stream_error out = None \<and> written out = None \<longrightarrow>
        snd (downloadFile listing out fs remote p) = Inl NotFoundLocally)
   \<and> (stream_error out = None \<and> written out = Some content \<longrightarrow>
        snd (downloadFile listing out fs remote p)
          = (if 0 < remote_size listing remote
                \<and> 1024 < \<bar>int (length content) - int (remote_size listing remote)\<bar>
             then Inl (SizeMismatch (length content) (remote_size listing remote))
             else Inr p))
   \<and> (snd (downloadFile listing out fs remote p) = Inr x \<longrightarrow>
        x = p
        \<and> fst (downloadFile listing out fs remote p) = fs(p := written out, backup_path p := None))
   \<and> (snd (downloadFile listing out fs remote p) = Inl e \<and> \<not> opens_late out \<longrightarrow>
        fst (downloadFile listing out fs remote p)
          = fs(p := (case fs p of Some old \<Rightarrow> Some old | None \<Rightarrow> fs (backup_path p)),
               backup_path p := None))"
proof (intro conjI impI)
  assume "fs p = Some c"
  then show "backup_existing fs p (backup_path p) = Some c" "backup_existing fs p p = None"
    by (simp_all add: backup_existing_eq)
next
  assume "stream_error out = Some msg"
  then show "snd (downloadFile listing out fs remote p) = Inl (StreamFailed msg)"
    by (simp add: downloadFile_result download_try_result)
next
  assume "stream_error out = None \<and> written out = None"
  then show "snd (downloadFile listing out fs remote p) = Inl NotFoundLocally"
    by (simp add: downloadFile_result download_try_result)
next
  assume "stream_error out = None \<and> written out = Some content"
  then show "snd (downloadFile listing out fs remote p)
          = (if 0 < remote_size listing remote
                \<and> 1024 < \<bar>int (length content) - int (remote_size listing remote)\<bar>
             then Inl (SizeMismatch (length content) (remote_size listing remote))
             else Inr p)"
    by (simp add: downloadFile_result download_try_result)
next
  assume a: "snd (downloadFile listing out fs remote p) = Inr x"
  then have r: "snd (download_try listing out fs remote p) = Inr x"
    by (simp add: downloadFile_result)
  from success_path [OF r] show "x = p" by simp
  from success_path [OF r] r
  show "fst (downloadFile listing out fs remote p) = fs(p := written out, backup_path p := None)"
    by (simp add: downloadFile_fs download_try_fs)
next
  assume a: "snd (downloadFile listing out fs remote p) = Inl e \<and> \<not> opens_late out"
  then have r: "snd (download_try listing out fs remote p) = Inl e"
    by (simp add: downloadFile_result)
  from a r
  show "fst (downloadFile listing out fs remote p)
          = fs(p := (case fs p of Some old \<Rightarrow> Some old | None \<Rightarrow> fs (backup_path p)),
               backup_path p := None)"
    by (auto simp: downloadFile_fs download_try_fs late_open_def download_catch_eq
        backup_existing_eq fun_eq_iff)
qed

text \<open>
  A failure with a file at the destination and with none, and a success.
\<close>

theorem downloadFile_backup_and_restore_witness:
  "downloadFile (Inr [\<lparr>f_name = ''feed.csv'', f_type = 1, f_size = 4000, modifiedAt = None\<rparr>])
       \<lparr>written = Some (replicate 2000 CHR ''x''), stream_error = None, open_pending = False\<rparr>
       [''d/feed.csv'' \<mapsto> ''old''] ''feed.csv'' ''d/feed.csv''
     = ([''d/feed.csv'' \<mapsto> ''old''], Inl (SizeMismatch 2000 4000))
   \<and> downloadFile (Inr [\<lparr>f_name = ''feed.csv'', f_type = 1, f_size = 4000, modifiedAt = None\<rparr>])
       \<lparr>written = Some ''part'', stream_error = Some ''timeout'', open_pending = False\<rparr>
       [''d/feed.csv'' \<mapsto> ''old''] ''feed.csv'' ''d/feed.csv''
     = ([''d/feed.csv'' \<mapsto> ''old''], Inl (StreamFailed ''timeout''))
   \<and> downloadFile (Inr [\<lparr>f_name = ''feed.csv'', f_type = 1, f_size = 4000, modifiedAt = None\<rparr>])
       \<lparr>written = Some (replicate 4000 CHR ''x''), stream_error = None, open_pending = False\<rparr>
       [''d/feed.csv'' \<mapsto> ''old''] ''feed.csv'' ''d/feed.csv''
     = ([''d/feed.csv'' \<mapsto> replicate 4000 CHR ''x''], Inr ''d/feed.csv'')"
proof -
  let ?fs = "[''d/feed.csv'' \<mapsto> ''old'']"
  let ?l = "Inr [\<lparr>f_name = ''feed.csv'', f_type = 1, f_size = 4000, modifiedAt = None\<rparr>]"
  let ?short = "\<lparr>written = Some (replicate 2000 CHR ''x''), stream_error = None,
                 open_pending = False\<rparr>"
  let ?broken = "\<lparr>written = Some ''part'', stream_error = Some ''timeout'',
                  open_pending = False\<rparr>"
  let ?whole = "\<lparr>written = Some (replicate 4000 CHR ''x''), stream_error = None,
                 open_pending = False\<rparr>"
  have size: "remote_size ?l ''feed.csv'' = 4000"
    "remote_size (Inr [\<lparr>f_name = ''feed.csv'', f_type = Suc 0, f_size = 4000,
       modifiedAt = None\<rparr>]) ''feed.csv'' = 4000"
    by (simp_all add: remote_size_def)
  have r: "?fs(''d/feed.csv'' := Some ''old'', backup_path ''d/feed.csv'' := None) = ?fs"
    "?fs(''d/feed.csv'' := Some (replicate 4000 CHR ''x''), backup_path ''d/feed.csv'' := None)
       = [''d/feed.csv'' \<mapsto> replicate 4000 CHR ''x'']"
    by (simp_all add: fun_eq_iff)
  from downloadFile_backup_and_restore [of ?fs "''d/feed.csv''" "''old''" ?short "''msg''" ?l
      "''feed.csv''" "replicate 2000 CHR ''x''" "''d/feed.csv''" "SizeMismatch 2000 4000"]
  have 1: "downloadFile ?l ?short ?fs ''feed.csv'' ''d/feed.csv''
             = (?fs, Inl (SizeMismatch 2000 4000))"
    by (intro prod_eqI) (simp_all add: size opens_late_def r)
  from downloadFile_backup_and_restore [of ?fs "''d/feed.csv''" "''old''" ?broken "''timeout''" ?l
      "''feed.csv''" "''part''" "''d/feed.csv''" "StreamFailed ''timeout''"]
  have 2: "downloadFile ?l ?broken ?fs ''feed.csv'' ''d/feed.csv''
             = (?fs, Inl (StreamFailed ''timeout''))"
    by (intro prod_eqI) (simp_all add: size opens_late_def r)
  from downloadFile_backup_and_restore [of ?fs "''d/feed.csv''" "''old''" ?whole "''msg''" ?l
      "''feed.csv''" "replicate 4000 CHR ''x''" "''d/feed.csv''" "SizeMismatch 2000 4000"]
  have 3: "downloadFile ?l ?whole ?fs ''feed.csv'' ''d/feed.csv''
             = ([''d/feed.csv'' \<mapsto> replicate 4000 CHR ''x''], Inr ''d/feed.csv'')"
    by (intro prod_eqI) (simp_all add: size opens_late_def r)
  from 1 2 3 show ?thesis by (intro conjI)
qed

text \<open>
  The claim as stated does not hold with an earlier \<open>.backup\<close> file and no file at the
  destination: after the failure the destination holds the old backup, which is not what
  was there before the download.
\<close>

theorem downloadFile_stale_backup_counterexample:
  "[''d/feed.csv.backup'' \<mapsto> ''stale''] ''d/feed.csv'' = None
   \<and> downloadFile (Inr [\<lparr>f_name = ''feed.csv'', f_type = 1, f_size = 4000, modifiedAt = None\<rparr>])
       \<lparr>written = Some ''part'', stream_error = Some ''timeout'', open_pending = False\<rparr>
       [''d/feed.csv.backup'' \<mapsto> ''stale''] ''feed.csv'' ''d/feed.csv''
     = ([''d/feed.csv'' \<mapsto> ''stale''], Inl (StreamFailed ''timeout''))"
  by (simp add: downloadFile_def download_try_def download_catch_def downloadWithProgress_def
      late_open_def opens_late_def remote_size_def backup_existing_def backup_path_def
      existsSync_def renameSync_def unlinkSync_def fun_eq_iff)

text \<open>
  The case that the amended claim leaves open. When the stream is rejected while the open
  of the destination is still pending, the \<open>catch\<close> block finds no partial file and moves the
  backup into place; the open then empties it. The call fails as it should, but the
  destination is left as an empty file, whatever it held before.
\<close>

lemma downloadFile_late_open:
  assumes "opens_late out"
  shows "fst (downloadFile listing out fs remote p) p = Some []"
    and "\<exists>msg. snd (downloadFile listing out fs remote p) = Inl (StreamFailed msg)"
  using assms
  by (auto simp: downloadFile_fs downloadFile_result download_try_result late_open_def
      opens_late_def)


lemma downloadFile_late_open_example:
  "downloadFile (Inr [\<lparr>f_name = ''feed.csv'', f_type = 1, f_size = 4000, modifiedAt = None\<rparr>])
       \<lparr>written = None, stream_error = Some ''Client is closed'', open_pending = True\<rparr>
       [''d/feed.csv'' \<mapsto> ''old''] ''feed.csv'' ''d/feed.csv''
     = ([''d/feed.csv'' \<mapsto> []], Inl (StreamFailed ''Client is closed''))"
  by (simp add: downloadFile_def download_try_def download_catch_def downloadWithProgress_def
      late_open_def opens_late_def remote_size_def backup_existing_def backup_path_def
      existsSync_def renameSync_def unlinkSync_def fun_eq_iff)

section \<open>Properties of the job guard\<close>

lemma job_step_inv:
  "active j \<le> 1 \<and> (isRunning j \<longleftrightarrow> active j = 1)
   \<Longrightarrow> active (job_step j e) \<le> 1 \<and> (isRunning (job_step j e) \<longleftrightarrow> active (job_step j e) = 1)"
  by (cases e) (auto simp: job_step_def executeJob_enter_def executeJob_leave_def Let_def)

lemma foldl_job_inv:
  "active j \<le> 1 \<and> (isRunning j \<longleftrightarrow> active j = 1)
   \<Longrightarrow> active (foldl job_step j es) \<le> 1
       \<and> (isRunning (foldl job_step j es) \<longleftrightarrow> active (foldl job_step j es) = 1)"
proof (induction es arbitrary: j)
  case Nil
  then show ?case by simp
next
  case (Cons e es)
  from job_step_inv [OF Cons.prems] have "active (job_step j e) \<le> 1 \<and> (isRunning (job_step j e) \<longleftrightarrow> active (job_step j e) = 1)" .
  from Cons.IH [OF this] show ?case by simp
qed

text \<open>
  Claim C9. Whatever triggers fire and whatever runs end, with or without an error, at most
  one run is past the guard, and the flag \<open>isRunning\<close> is set exactly while one is. A
  trigger that fires during a run changes nothing but the log: it starts no run and leaves
  nothing behind that would start one later. The end of a run clears the flag whether the
  run succeeded or failed, and a trigger that finds the flag clear starts a run.
\<close>

theorem reentrancy_guard:
  "active (run_events es) \<le> 1
   \<and> (isRunning (run_events es) \<longleftrightarrow> active (run_events es) = 1)
   \<and> (isRunning (run_events es) \<longrightarrow>
        isRunning (executeJob_enter (run_events es))
        \<and> active (executeJob_enter (run_events es)) = active (run_events es)
        \<and> job_log (executeJob_enter (run_events es))
            = job_log (run_events es) @ [''Job is already running, skipping this execution''])
   \<and> (\<not> isRunning (run_events es) \<longrightarrow>
        isRunning (executeJob_enter (run_events es))
        \<and> active (executeJob_enter (run_events es)) = 1)
   \<and> (isRunning (run_events es) \<longrightarrow>
        \<not> isRunning (executeJob_leave ok (run_events es))
        \<and> active (executeJob_leave ok (run_events es)) = 0)"
proof -
  have inv: "active (run_events es) \<le> 1 \<and> (isRunning (run_events es) \<longleftrightarrow> active (run_events es) = 1)"
    unfolding run_events_def by (rule foldl_job_inv) (simp add: new_job_def)
  then show ?thesis
    by (auto simp: executeJob_enter_def executeJob_leave_def Let_def)
qed

theorem reentrancy_guard_witness:
  "isRunning (run_events [Trigger, Trigger])
   \<and> active (run_events [Trigger, Trigger]) = 1
   \<and> job_log (run_events [Trigger, Trigger]) = [''Job is already running, skipping this execution'']
   \<and> \<not> isRunning (run_events [Trigger, Trigger, BodyEnds False])
   \<and> \<not> isRunning (run_events [Trigger, BodyEnds True])
   \<and> isRunning (run_events [Trigger, BodyEnds False, Trigger])
   \<and> isRunning (executeJob_enter (run_events [Trigger]))
   \<and> \<not> isRunning (executeJob_leave False (run_events [Trigger]))
   \<and> \<not> isRunning (run_events [])
   \<and> active (executeJob_enter (run_events [])) = 1"
  using reentrancy_guard [of "[Trigger]" False] reentrancy_guard [of "[]" True]
  by (simp add: run_events_def job_step_def executeJob_enter_def executeJob_leave_def new_job_def)

section \<open>Properties of the numbers\<close>

subsection \<open>Logarithms and rounding to an integer\<close>

lemma log_up_bounds:
  "2 \<le> b \<Longrightarrow> 1 \<le> a \<Longrightarrow> of_nat b ^ log_up b a \<le> a \<and> a < of_nat b ^ Suc (log_up b a)"
proof (induction b a rule: log_up.induct)
  case (1 b a)
  have b0: "(0::rat) < of_nat b" using 1(2) by simp
  show ?case
  proof (cases "of_nat b \<le> a")
    case True
    then have "1 \<le> a / of_nat b" using b0 by (simp add: le_divide_eq)
    with 1 True have ih: "of_nat b ^ log_up b (a / of_nat b) \<le> a / of_nat b
        \<and> a / of_nat b < of_nat b ^ Suc (log_up b (a / of_nat b))" by simp
    have s: "log_up b a = Suc (log_up b (a / of_nat b))"
      using True 1(2) by (subst log_up.simps) simp
    from ih b0 show ?thesis unfolding s
      by (simp add: le_divide_eq divide_less_eq mult.commute)
  next
    case False
    then have s: "log_up b a = 0" by (subst log_up.simps) simp
    from False 1(3) show ?thesis unfolding s by simp
  qed
qed

lemma log_down_bounds:
  "2 \<le> b \<Longrightarrow> 0 < a \<Longrightarrow> a < 1 \<Longrightarrow>
     1 \<le> a * of_nat b ^ log_down b a \<and> a * of_nat b ^ log_down b a < of_nat b"
proof (induction b a rule: log_down.induct)
  case (1 b a)
  have b0: "(0::rat) < of_nat b" using 1(2) by simp
  have s: "log_down b a = Suc (log_down b (a * of_nat b))"
    using 1(2,3,4) by (subst log_down.simps) simp
  have p: "0 < a * of_nat b" using 1(3) b0 by simp
  show ?case
  proof (cases "a * of_nat b < 1")
    case True
    with 1 p have "1 \<le> a * of_nat b * of_nat b ^ log_down b (a * of_nat b)
        \<and> a * of_nat b * of_nat b ^ log_down b (a * of_nat b) < of_nat b" by simp
    then show ?thesis unfolding s by (simp add: mult.assoc)
  next
    case False
    then have z: "log_down b (a * of_nat b) = 0" by (subst log_down.simps) simp
    have "a * of_nat b < 1 * of_nat b" using 1(4) b0 by (intro mult_strict_right_mono) simp_all
    with False show ?thesis unfolding s z by simp
  qed
qed

lemma floor_log_bounds:
  assumes "2 \<le> b" and "0 < a"
  shows "of_nat b powi floor_log b a \<le> a" and "a < of_nat b powi (floor_log b a + 1)"
proof -
  have b0: "(0::rat) < of_nat b" using assms(1) by simp
  have "of_nat b powi floor_log b a \<le> a \<and> a < of_nat b powi (floor_log b a + 1)"
  proof (cases "1 \<le> a")
    case True
    with log_up_bounds [OF assms(1) True] show ?thesis
      by (simp add: floor_log_def power_int_def nat_add_distrib)
  next
    case False
    then have a1: "a < 1" by simp
    define n where "n = log_down b a"
    from log_down_bounds [OF assms(1,2) a1]
    have 1: "1 \<le> a * of_nat b ^ n" and 2: "a * of_nat b ^ n < of_nat b" by (simp_all add: n_def)
    have n0: "0 < n" using a1 assms unfolding n_def by (subst log_down.simps) simp
    have pw: "(0::rat) < of_nat b ^ n" using b0 by simp
    have e1: "of_nat b powi (- int n) = 1 / (of_nat b :: rat) ^ n"
      by (simp add: power_int_def field_simps)
    have "of_nat b powi (- int n + 1) = (of_nat b :: rat) powi (- int n) * of_nat b powi 1"
      using b0 by (subst power_int_add) simp_all
    then have e2: "of_nat b powi (- int n + 1) = (of_nat b :: rat) / of_nat b ^ n"
      by (simp add: e1)
    from 1 pw have l: "1 / of_nat b ^ n \<le> a" by (simp add: divide_le_eq)
    from 2 pw have u: "a < of_nat b / of_nat b ^ n" by (simp add: less_divide_eq)
    have f: "floor_log b a = - int n" using False by (simp add: floor_log_def n_def)
    from l u show ?thesis unfolding f e1 e2 by simp
  qed
  then show "of_nat b powi floor_log b a \<le> a" and "a < of_nat b powi (floor_log b a + 1)"
    by simp_all
qed

lemma floor_log_unique:
  assumes b: "2 \<le> b" and l: "of_nat b powi e \<le> a" and u: "a < of_nat b powi (e + 1)"
  shows "floor_log b a = e"
proof -
  have b1: "(1::rat) < of_nat b" using b by simp
  have a0: "0 < a" using l b1 by (meson less_le_trans zero_less_power_int zero_less_one less_trans)
  note fl = floor_log_bounds [OF b a0]
  have 1: "e < floor_log b a + 1"
  proof (rule ccontr)
    assume "\<not> e < floor_log b a + 1"
    then have "(of_nat b :: rat) powi (floor_log b a + 1) \<le> of_nat b powi e"
      using b1 by (intro power_int_increasing) simp_all
    with l fl(2) show False by simp
  qed
  have 2: "floor_log b a < e + 1"
  proof (rule ccontr)
    assume "\<not> floor_log b a < e + 1"
    then have "(of_nat b :: rat) powi (e + 1) \<le> of_nat b powi floor_log b a"
      using b1 by (intro power_int_increasing) simp_all
    with u fl(1) show False by simp
  qed
  from 1 2 show ?thesis by simp
qed

lemma round_half_even_near: "\<bar>of_int (round_half_even m) - m\<bar> \<le> 1 / 2"
proof -
  have "of_int \<lfloor>m\<rfloor> \<le> m" "m < of_int \<lfloor>m\<rfloor> + 1" by linarith+
  then show ?thesis by (auto simp: round_half_even_def Let_def)
qed

lemma round_half_even_of_int: "round_half_even (of_int k) = k"
  by (simp add: round_half_even_def)

subsection \<open>Rounding to binary64\<close>

text \<open>
  In the normal range \<open>to_double\<close> keeps 53 significant bits, so the value it returns is
  within \<open>x / 2 ^ 53\<close> of \<open>x\<close>; integers below \<open>2 ^ 53\<close> are kept as they are.
\<close>

lemma floor_log2_unique:
  "2 powi e \<le> a \<Longrightarrow> a < 2 powi (e + 1) \<Longrightarrow> floor_log 2 a = e"
  using floor_log_unique [of 2 e a] by simp

lemma powi2_eq: "c = a + b \<Longrightarrow> (2::rat) powi c = 2 powi a * 2 powi b"
  by (simp add: power_int_add)

lemma round_half_even_le:
  assumes "m \<le> of_int N"
  shows "round_half_even m \<le> N"
proof -
  from round_half_even_near [of m] have "of_int (round_half_even m) \<le> m + 1 / 2" by linarith
  with assms have "(of_int (round_half_even m) :: rat) < of_int N + 1" by linarith
  then have "(of_int (round_half_even m) :: rat) < of_int (N + 1)" by simp
  then have "round_half_even m < N + 1" by (simp only: of_int_less_iff)
  then show ?thesis by simp
qed

lemma to_double_normal:
  assumes l: "2 powi e \<le> x" and u: "x < 2 powi (e + 1)" and e: "- 1022 \<le> e" "e \<le> 1022"
  shows "to_double x = Num (of_int (round_half_even (x / 2 powi (e - 52))) * 2 powi (e - 52))"
proof -
  have x0: "0 < x" using l by (meson less_le_trans zero_less_power_int zero_less_numeral)
  have ax: "\<bar>x\<bar> = x" using x0 by simp
  have f: "floor_log 2 x = e" using l u by (simp add: floor_log2_unique)
  define q where "q = e - 52"
  define k where "k = round_half_even (x / 2 powi q)"
  have p0: "(0::rat) < 2 powi q" by simp
  have "(2::rat) powi (e + 1) = 2 powi q * 2 powi 53"
    by (rule powi2_eq) (simp add: q_def)
  then have "x / 2 powi q < 2 powi 53" using u p0 by (simp add: divide_less_eq mult.commute)
  then have "x / 2 powi q \<le> of_int (2 ^ 53)" by simp
  then have k53: "k \<le> 2 ^ 53" unfolding k_def by (rule round_half_even_le)
  have "(of_int k :: rat) \<le> of_int (2 ^ 53)" using k53 by (simp only: of_int_le_iff)
  then have "of_int k * 2 powi q \<le> (2::rat) ^ 53 * 2 powi q"
    using p0 by (intro mult_right_mono) simp_all
  also have "\<dots> = 2 powi (e + 1)"
    using powi2_eq [of "e + 1" q 53] by (simp add: q_def)
  also have "\<dots> \<le> 2 powi 1023" using e by (intro power_int_increasing) simp_all
  also have "\<dots> < 2 ^ 1024" by simp
  finally have r: "\<not> (2::rat) ^ 1024 \<le> of_int k * 2 powi q" by simp
  have m: "max e (- 1022) - 52 = e - 52" using e by simp
  from r have r': "\<not> (2::rat) ^ 1024
      \<le> of_int (round_half_even (x / 2 powi (e - 52))) * 2 powi (e - 52)"
    unfolding k_def q_def .
  show ?thesis
    unfolding to_double_def Let_def ax f m using x0 r' by (simp only: if_False) simp
qed

lemma to_double_error:
  assumes l: "2 powi e \<le> x" and u: "x < 2 powi (e + 1)" and e: "- 1022 \<le> e" "e \<le> 1022"
  shows "\<exists>r. to_double x = Num r \<and> \<bar>r - x\<bar> \<le> 2 powi (e - 53)"
proof -
  define q where "q = e - 52"
  define k where "k = round_half_even (x / 2 powi q)"
  have p0: "(0::rat) < 2 powi q" by simp
  have t: "to_double x = Num (of_int k * 2 powi q)"
    using to_double_normal [OF assms] by (simp add: k_def q_def)
  have "of_int k * 2 powi q - x = (of_int k - x / 2 powi q) * 2 powi q"
    using p0 by (simp add: field_simps)
  then have "\<bar>of_int k * 2 powi q - x\<bar> = \<bar>of_int k - x / 2 powi q\<bar> * 2 powi q"
    using p0 by (simp add: abs_mult)
  also have "\<dots> \<le> 1 / 2 * 2 powi q"
    using round_half_even_near [of "x / 2 powi q"] p0
    by (intro mult_right_mono) (simp_all add: k_def)
  also have "\<dots> = 2 powi (e - 53)"
  proof -
    have "(2::rat) powi q = 2 powi (e - 53) * 2 powi 1"
      by (rule powi2_eq) (simp add: q_def)
    then show ?thesis by simp
  qed
  finally show ?thesis using t by blast
qed

lemma to_double_relative:
  assumes x: "2 powi (- 1022) \<le> x" "x < 2 powi 1023"
  shows "\<exists>r. to_double x = Num r \<and> \<bar>r - x\<bar> \<le> x / 2 ^ 53"
proof -
  have x0: "0 < x" using x(1) by (meson less_le_trans zero_less_power_int zero_less_numeral)
  define e where "e = floor_log 2 x"
  from floor_log_bounds [of 2 x] x0
  have l: "2 powi e \<le> x" and u: "x < 2 powi (e + 1)" by (simp_all add: e_def)
  have e1: "- 1022 \<le> e"
  proof (rule ccontr)
    assume "\<not> - 1022 \<le> e"
    then have "(2::rat) powi (e + 1) \<le> 2 powi (- 1022)" by (intro power_int_increasing) simp_all
    with u x(1) show False by linarith
  qed
  have e2: "e \<le> 1022"
  proof (rule ccontr)
    assume "\<not> e \<le> 1022"
    then have "(2::rat) powi 1023 \<le> 2 powi e" by (intro power_int_increasing) simp_all
    with l x(2) show False by linarith
  qed
  from to_double_error [OF l u e1 e2] obtain r where
    r: "to_double x = Num r" "\<bar>r - x\<bar> \<le> 2 powi (e - 53)" by blast
  have "(2::rat) powi e = 2 powi (e - 53) * 2 powi 53"
    by (rule powi2_eq) simp
  then have "(2::rat) powi (e - 53) = 2 powi e / 2 ^ 53" by simp
  also have "\<dots> \<le> x / 2 ^ 53" using l by (simp add: divide_right_mono)
  finally show ?thesis using r by (intro exI [of _ r]) simp
qed

lemma to_double_of_nat:
  assumes "n < 2 ^ 53"
  shows "to_double (of_nat n) = Num (of_nat n)"
proof (cases "n = 0")
  case True
  then show ?thesis by (simp add: to_double_def)
next
  case False
  define x :: rat where "x = of_nat n"
  have x1: "1 \<le> x" using False by (simp add: x_def)
  then have x0: "0 < x" by simp
  define e where "e = floor_log 2 x"
  from floor_log_bounds [of 2 x] x0
  have l: "2 powi e \<le> x" and u: "x < 2 powi (e + 1)" by (simp_all add: e_def)
  have e0: "0 \<le> e"
  proof (rule ccontr)
    assume "\<not> 0 \<le> e"
    then have "(2::rat) powi (e + 1) \<le> 2 powi 0" by (intro power_int_increasing) simp_all
    with u x1 show False by simp
  qed
  have "x < 2 ^ 53" using assms unfolding x_def
    by (metis of_nat_less_iff of_nat_numeral of_nat_power)
  have e52: "e \<le> 52"
  proof (rule ccontr)
    assume "\<not> e \<le> 52"
    then have "(2::rat) powi 53 \<le> 2 powi e" by (intro power_int_increasing) simp_all
    with l \<open>x < 2 ^ 53\<close> show False by simp
  qed
  have "(2::rat) powi (e - 52) * 2 powi (52 - e) = 1"
    using powi2_eq [of 0 "e - 52" "52 - e"] by simp
  then have "x / 2 powi (e - 52) = x * 2 powi (52 - e)"
    by (simp add: field_simps)
  also have "\<dots> = of_int (int n * 2 ^ nat (52 - e))"
    using e52 by (simp add: x_def power_int_def)
  finally have "round_half_even (x / 2 powi (e - 52)) = int n * 2 ^ nat (52 - e)"
    by (simp only: round_half_even_of_int)
  with to_double_normal [OF l u] e0 e52
  have "to_double x = Num (of_int (int n * 2 ^ nat (52 - e)) * 2 powi (e - 52))" by simp
  also have "of_int (int n * 2 ^ nat (52 - e)) * 2 powi (e - 52)
      = x * (2 powi (52 - e) * 2 powi (e - 52))"
    using e52 by (simp add: x_def power_int_def)
  also have "2 powi (52 - e) * 2 powi (e - 52) = (1::rat)"
    using powi2_eq [of 0 "52 - e" "e - 52"] by simp
  finally show ?thesis by (simp add: x_def)
qed

lemma to_double_not_NaN: "to_double x \<noteq> NaN"
  by (simp add: to_double_def Let_def)

subsection \<open>Decimal digits and two-decimal renderings\<close>

lemma digit_char:
  assumes "m < 10"
  shows "is_digit (char_of (48 + m))" and "digit_val (char_of (48 + m)) = m"
  using assms by (simp_all add: is_digit_def digit_val_def code_unit_def)

lemma digits_val_from:
  "foldl (\<lambda>a c. 10 * a + digit_val c) a ys = a * 10 ^ length ys + digits_val ys"
proof (induction ys arbitrary: a)
  case Nil
  show ?case by (simp add: digits_val_def)
next
  case (Cons y ys)
  have "foldl (\<lambda>a c. 10 * a + digit_val c) a (y # ys)
      = (10 * a + digit_val y) * 10 ^ length ys + digits_val ys"
    by (simp add: Cons [of "10 * a + digit_val y"])
  moreover have "digits_val (y # ys) = digit_val y * 10 ^ length ys + digits_val ys"
    using Cons [of "digit_val y"] by (simp add: digits_val_def)
  ultimately show ?case by (simp add: algebra_simps)
qed

lemma digits_val_append:
  "digits_val (xs @ ys) = digits_val xs * 10 ^ length ys + digits_val ys"
proof -
  have "digits_val (xs @ ys) = foldl (\<lambda>a c. 10 * a + digit_val c) (digits_val xs) ys"
    by (simp add: digits_val_def)
  then show ?thesis by (simp only: digits_val_from)
qed

lemma digits_val_zeros: "digits_val (replicate j CHR ''0'') = 0"
  by (induction j) (simp_all add: digits_val_def digit_val_def code_unit_def)

lemma digits_val_single: "digits_val [c] = digit_val c"
  by (simp add: digits_val_def)

lemma dec_digits_spec:
  "dec_digits n \<noteq> [] \<and> (\<forall>c \<in> set (dec_digits n). is_digit c) \<and> digits_val (dec_digits n) = n"
proof (induction n rule: dec_digits.induct)
  case (1 n)
  show ?case
  proof (cases "n < 10")
    case True
    then have s: "dec_digits n = [char_of (48 + n)]" by (subst dec_digits.simps) simp
    show ?thesis using digit_char [OF True] by (simp add: s digits_val_single)
  next
    case False
    then have s: "dec_digits n = dec_digits (n div 10) @ [char_of (48 + n mod 10)]"
      by (subst dec_digits.simps) simp
    from 1 False have ih: "dec_digits (n div 10) \<noteq> []"
      "\<forall>c \<in> set (dec_digits (n div 10)). is_digit c"
      "digits_val (dec_digits (n div 10)) = n div 10" by simp_all
    have m: "n mod 10 < 10" by simp
    show ?thesis
      using ih digit_char [OF m] by (simp add: s digits_val_append digits_val_single)
  qed
qed

lemma digit_not_sign: "is_digit c \<Longrightarrow> c \<noteq> CHR ''-'' \<and> c \<noteq> CHR ''+'' \<and> c \<noteq> CHR ''.'' \<and> \<not> is_space c"
  by (auto simp: is_digit_def is_space_def code_unit_def)

text \<open>The number read from digits, a point and digits.\<close>

lemma parseFloat_decimal:
  assumes ip: "ip \<noteq> []" "\<forall>c \<in> set ip. is_digit c" and fp: "\<forall>c \<in> set fp. is_digit c"
  shows "parseFloat (ip @ CHR ''.'' # fp)
           = to_double (rat_of_nat (digits_val (ip @ fp)) / 10 ^ length fp)"
proof -
  from ip obtain d ds where i: "ip = d # ds" by (cases ip) auto
  with ip have d: "is_digit d" by simp
  note ns = digit_not_sign [OF d]
  have p: "\<not> is_digit CHR ''.''" by (simp add: is_digit_def code_unit_def)
  have 1: "dropWhile is_space (ip @ CHR ''.'' # fp) = ip @ CHR ''.'' # fp"
    using ns by (simp add: i)
  have 2: "split_sign (ip @ CHR ''.'' # fp) = (False, ip @ CHR ''.'' # fp)"
    using ns by (simp add: i split_sign_def)
  have 3: "takeWhile is_digit (ip @ CHR ''.'' # fp) = ip"
    using ip(2) p by (simp add: takeWhile_append2)
  have 4: "dropWhile is_digit (ip @ CHR ''.'' # fp) = CHR ''.'' # fp"
    using ip(2) p by (simp add: dropWhile_append2)
  have 5: "takeWhile is_digit fp = fp" "dropWhile is_digit fp = []"
    using fp by simp_all
  have 6: "take 8 (ip @ CHR ''.'' # fp) \<noteq> ''Infinity''"
    using d by (auto simp: i is_digit_def code_unit_def)
  show ?thesis
    unfolding parseFloat_def 1 2 using ip(1) 6
    by (simp add: 3 4 5 exponent_part_def Let_def)
qed

lemma fixed2_parts:
  "\<exists>ip fp. fixed2 a = ip @ CHR ''.'' # fp \<and> ip \<noteq> [] \<and> (\<forall>c \<in> set ip. is_digit c)
     \<and> (\<forall>c \<in> set fp. is_digit c) \<and> length fp = 2 \<and> digits_val (ip @ fp) = cents a"
proof -
  define n where "n = cents a"
  define padded where "padded = replicate (3 - length (dec_digits n)) CHR ''0'' @ dec_digits n"
  define k where "k = length padded"
  have z: "is_digit CHR ''0''" by (simp add: is_digit_def code_unit_def)
  have pd: "\<forall>c \<in> set padded. is_digit c"
    using dec_digits_spec [of n] z by (auto simp: padded_def)
  have pl: "3 \<le> k" by (simp add: padded_def k_def)
  have pv: "digits_val padded = n"
    using dec_digits_spec [of n] by (simp add: padded_def digits_val_append digits_val_zeros)
  have f: "fixed2 a = take (k - 2) padded @ CHR ''.'' # drop (k - 2) padded"
    by (simp add: fixed2_def Let_def n_def padded_def k_def)
  have "take (k - 2) padded \<noteq> []" using pl by (auto simp: k_def)
  moreover have "\<forall>c \<in> set (take (k - 2) padded). is_digit c"
    using pd by (meson in_set_takeD)
  moreover have "\<forall>c \<in> set (drop (k - 2) padded). is_digit c"
    using pd by (meson in_set_dropD)
  moreover have "length (drop (k - 2) padded) = 2" using pl by (simp add: k_def)
  moreover have "digits_val (take (k - 2) padded @ drop (k - 2) padded) = cents a"
    using pv by (simp add: n_def)
  ultimately show ?thesis using f by blast
qed

lemma parseFloat_fixed2: "parseFloat (fixed2 a) = to_double (rat_of_nat (cents a) / 100)"
proof -
  from fixed2_parts [of a] obtain ip fp where
    h: "fixed2 a = ip @ CHR ''.'' # fp" "ip \<noteq> []" "\<forall>c \<in> set ip. is_digit c"
       "\<forall>c \<in> set fp. is_digit c" "length fp = 2" "digits_val (ip @ fp) = cents a"
    by blast
  from parseFloat_decimal [OF h(2,3,4)] h(1,5,6) show ?thesis by simp
qed

lemma fixed2_not_empty: "fixed2 a \<noteq> []"
  using fixed2_parts [of a] by auto

lemma fixed2_cents: "cents a = cents b \<Longrightarrow> fixed2 a = fixed2 b"
  by (simp add: fixed2_def)

lemma to_double_numeral:
  "(numeral k :: nat) < 2 ^ 53 \<Longrightarrow> to_double (numeral k) = Num (numeral k)"
  using to_double_of_nat [of "numeral k"] by simp

lemma to_double_one: "to_double 1 = Num 1"
  using to_double_of_nat [of 1] by simp

lemma to_double_pos:
  assumes "2 powi (- 1022) \<le> x" "x < 2 powi 1023"
  shows "\<exists>r. to_double x = Num r \<and> 0 < r"
proof -
  have x0: "0 < x" using assms(1) by (meson less_le_trans zero_less_power_int zero_less_numeral)
  from to_double_relative [OF assms] obtain r where
    r: "to_double x = Num r" "\<bar>r - x\<bar> \<le> x / 2 ^ 53" by blast
  have "x / 2 ^ 53 < x" using x0 by (simp add: divide_less_eq)
  with r(2) have "0 < r" by linarith
  with r(1) show ?thesis by blast
qed

lemma cents_range:
  assumes "0 < n" "n \<le> 10 ^ 15"
  shows "2 powi (- 1022) \<le> rat_of_nat n / 100" "rat_of_nat n / 100 < 2 powi 1023"
    "rat_of_nat n / 100 \<le> 10 ^ 13"
proof -
  have 1: "1 \<le> rat_of_nat n" using assms(1) by simp
  have "rat_of_nat n \<le> rat_of_nat (10 ^ 15)" using assms(2) by (simp only: of_nat_le_iff)
  then have 2: "rat_of_nat n \<le> 10 ^ 15" by simp
  have "(2::rat) powi (- 1022) \<le> 1 / 100" by (simp add: power_int_minus_divide)
  also have "\<dots> \<le> rat_of_nat n / 100" using 1 by simp
  finally show "2 powi (- 1022) \<le> rat_of_nat n / 100" .
  show 3: "rat_of_nat n / 100 \<le> 10 ^ 13" using 2 by simp
  have "(10::rat) ^ 13 < 2 powi 1023" by simp
  with 3 show "rat_of_nat n / 100 < 2 powi 1023" by linarith
qed

lemma cents_double_inj:
  assumes n: "n \<le> 10 ^ 15" and m: "m \<le> 10 ^ 15"
    and eq: "to_double (rat_of_nat n / 100) = to_double (rat_of_nat m / 100)"
  shows "n = m"
proof -
  have zero: "k = 0" if k: "k \<le> 10 ^ 15" and z: "to_double (rat_of_nat k / 100) = Num 0" for k
  proof (rule ccontr)
    assume "k \<noteq> 0"
    then have "0 < k" by simp
    from to_double_pos [OF cents_range(1,2) [OF this k]] z show False by auto
  qed
  show ?thesis
  proof (cases "n = 0 \<or> m = 0")
    case True
    then show ?thesis
    proof
      assume "n = 0"
      with eq have "to_double (rat_of_nat m / 100) = Num 0" by (simp add: to_double_def)
      with zero [OF m] \<open>n = 0\<close> show ?thesis by simp
    next
      assume "m = 0"
      with eq have "to_double (rat_of_nat n / 100) = Num 0" by (simp add: to_double_def)
      with zero [OF n] \<open>m = 0\<close> show ?thesis by simp
    qed
  next
    case False
    then have n0: "0 < n" and m0: "0 < m" by simp_all
    define a where "a = rat_of_nat n / 100"
    define b where "b = rat_of_nat m / 100"
    note rn = cents_range [OF n0 n, folded a_def]
    note rm = cents_range [OF m0 m, folded b_def]
    from to_double_relative [OF rn(1,2)] obtain r where
      r: "to_double a = Num r" "\<bar>r - a\<bar> \<le> a / 2 ^ 53" by blast
    from to_double_relative [OF rm(1,2)] obtain s where
      s: "to_double b = Num s" "\<bar>s - b\<bar> \<le> b / 2 ^ 53" by blast
    from eq r(1) s(1) have "r = s" by (simp add: a_def b_def)
    have "a / 2 ^ 53 \<le> 10 ^ 13 / 2 ^ 53" using rn(3) by (intro divide_right_mono) simp_all
    moreover have "b / 2 ^ 53 \<le> 10 ^ 13 / 2 ^ 53" using rm(3) by (intro divide_right_mono) simp_all
    moreover have "(10::rat) ^ 13 / 2 ^ 53 < 1 / 200" by simp
    ultimately have "\<bar>a - b\<bar> < 1 / 100" using r(2) s(2) \<open>r = s\<close> by linarith
    then have "\<bar>rat_of_nat n - rat_of_nat m\<bar> < 1" by (simp add: a_def b_def field_simps)
    then have "\<bar>rat_of_int (int n - int m)\<bar> < 1" by simp
    then have "\<bar>int n - int m\<bar> < 1" by (simp only: of_int_abs [symmetric] of_int_less_1_iff)
    then show ?thesis by simp
  qed
qed

lemma cents_bound: "0 \<le> a \<Longrightarrow> a < 10 ^ 13 \<Longrightarrow> cents a \<le> 10 ^ 15"
proof -
  assume a: "0 \<le> a" "a < 10 ^ 13"
  then have "a * 100 + 1 / 2 < 10 ^ 15 + 1" by simp
  then have "a * 100 + 1 / 2 < of_int (10 ^ 15 + 1)" by simp
  then have "\<lfloor>a * 100 + 1 / 2\<rfloor> < 10 ^ 15 + 1" by (simp only: floor_less_iff)
  then have "nat \<lfloor>a * 100 + 1 / 2\<rfloor> \<le> nat (10 ^ 15)" by (intro nat_mono) linarith
  then show ?thesis by (simp add: cents_def)
qed

lemma toFixed2_small: "0 \<le> a \<Longrightarrow> a < 10 ^ 13 \<Longrightarrow> toFixed2 (Num a) = fixed2 a"
  by (simp add: toFixed2_def)

text \<open>Two-decimal renderings of amounts below \<open>10 ^ 13\<close> are read back as equal numbers
  only when they are the same string.\<close>

lemma rendering_compare:
  assumes "0 \<le> a" "a < 10 ^ 13" "0 \<le> b" "b < 10 ^ 13"
  shows "strict_neq (parseFloat (toFixed2 (Num a))) (parseFloat (toFixed2 (Num b)))
           \<longleftrightarrow> toFixed2 (Num a) \<noteq> toFixed2 (Num b)"
proof -
  have "parseFloat (fixed2 a) = parseFloat (fixed2 b) \<longleftrightarrow> fixed2 a = fixed2 b"
  proof
    assume "parseFloat (fixed2 a) = parseFloat (fixed2 b)"
    then have "to_double (rat_of_nat (cents a) / 100) = to_double (rat_of_nat (cents b) / 100)"
      by (simp only: parseFloat_fixed2)
    from cents_double_inj [OF cents_bound [OF assms(1,2)] cents_bound [OF assms(3,4)] this]
    show "fixed2 a = fixed2 b" by (rule fixed2_cents)
  qed simp
  moreover have "parseFloat (fixed2 a) \<noteq> NaN" "parseFloat (fixed2 b) \<noteq> NaN"
    by (simp_all add: parseFloat_fixed2 to_double_not_NaN)
  ultimately show ?thesis
    using assms by (simp add: toFixed2_small strict_neq_def)
qed

lemma rendering_zero:
  assumes "0 \<le> a" "a < 10 ^ 13"
  shows "strict_neq (parseFloat (toFixed2 (Num a))) (Num 0) \<longleftrightarrow> toFixed2 (Num a) \<noteq> toFixed2 (Num 0)"
proof -
  have "parseFloat (toFixed2 (Num 0)) = Num 0"
    by (simp add: toFixed2_small parseFloat_fixed2 cents_def to_double_def)
  with rendering_compare [OF assms, of 0] show ?thesis by simp
qed

subsection \<open>Values used in the examples\<close>

lemmas parse_simps = parseFloat_def split_sign_def is_space_def is_digit_def code_unit_def
  digits_val_def digit_val_def exponent_part_def

lemma example_parseFloat:
  "parseFloat ''10'' = Num 10" "parseFloat ''12'' = Num 12" "parseFloat ''1'' = Num 1"
  "parseFloat ''10.00'' = Num 10" "parseFloat ''12.00'' = Num 12" "parseFloat ''20.00'' = Num 20"
  by (simp_all add: parse_simps to_double_numeral to_double_one)

lemma cents_eval:
  assumes "rat_of_nat n - 1 / 2 \<le> a * 100" "a * 100 < rat_of_nat n + 1 / 2"
  shows "cents a = n"
proof -
  have "\<lfloor>a * 100 + 1 / 2\<rfloor> = int n" using assms by (simp add: floor_eq_iff)
  then show ?thesis by (simp add: cents_def)
qed

lemma example_cents: "cents 10 = 1000" "cents 12 = 1200" "cents 20 = 2000"
  by (rule cents_eval; simp)+

lemma example_dec_digits:
  "dec_digits 1000 = ''1000''" "dec_digits 1200 = ''1200''" "dec_digits 2000 = ''2000''"
  "dec_digits 5 = ''5''" "dec_digits 9 = ''9''"
  by code_simp+

lemma fixed2_eval:
  assumes "rat_of_nat n - 1 / 2 \<le> a * 100" "a * 100 < rat_of_nat n + 1 / 2"
  shows "fixed2 a = fixed2 (rat_of_nat n / 100)"
proof -
  have "cents (rat_of_nat n / 100) = n" by (rule cents_eval) simp_all
  with cents_eval [OF assms] show ?thesis by (intro fixed2_cents) simp
qed

lemma example_fixed2: "fixed2 10 = ''10.00''" "fixed2 12 = ''12.00''" "fixed2 20 = ''20.00''"
  by (simp_all add: fixed2_def Let_def example_cents example_dec_digits)

lemma example_toFixed2:
  "toFixed2 (Num 10) = ''10.00''" "toFixed2 (Num 12) = ''12.00''" "toFixed2 (Num 20) = ''20.00''"
  by (simp_all add: toFixed2_def example_fixed2)

lemma to_double_close:
  assumes "1 / 100 \<le> x" "x \<le> 1000"
  shows "\<exists>r. to_double x = Num r \<and> x - 1 / 1000000000000 < r \<and> r < x + 1 / 1000000000000"
proof -
  have "(2::rat) powi (- 1022) \<le> 1 / 100" by (simp add: power_int_minus_divide)
  with assms(1) have l: "2 powi (- 1022) \<le> x" by linarith
  have "(1000::rat) < 2 powi 1023" by simp
  with assms(2) have u: "x < 2 powi 1023" by linarith
  from to_double_relative [OF l u] obtain r where
    r: "to_double x = Num r" "\<bar>r - x\<bar> \<le> x / 2 ^ 53" by blast
  have "x / 2 ^ 53 \<le> 1000 / 2 ^ 53" using assms(2) by (intro divide_right_mono) simp_all
  also have "\<dots> < 1 / 1000000000000" by simp
  finally have "\<bar>r - x\<bar> < 1 / 1000000000000" using r(2) by simp
  then have "x - 1 / 1000000000000 < r \<and> r < x + 1 / 1000000000000" by linarith
  with r(1) show ?thesis by blast
qed

lemma example_to_double_10001:
  "toFixed2 (to_double (10001 / 1000)) = ''10.00''" "to_double (10001 / 1000) \<noteq> Num 10"
proof -
  from to_double_close [of "10001 / 1000"] obtain r where
    r: "to_double (10001 / 1000) = Num r" "10001 / 1000 - 1 / 1000000000000 < r"
      "r < 10001 / 1000 + 1 / 1000000000000" by auto
  from r(2,3) have b: "10 < r" "r < 11" by linarith+
  have "fixed2 r = fixed2 (rat_of_nat 1000 / 100)" using r(2,3) by (intro fixed2_eval) simp_all
  then have "fixed2 r = ''10.00''" by (simp add: example_fixed2)
  with b show "toFixed2 (to_double (10001 / 1000)) = ''10.00''" by (simp add: r(1) toFixed2_def)
  from b show "to_double (10001 / 1000) \<noteq> Num 10" by (simp add: r(1))
qed

lemma example_to_double_11999: "toFixed2 (to_double (11999 / 1000)) = ''12.00''"
proof -
  from to_double_close [of "11999 / 1000"] obtain r where
    r: "to_double (11999 / 1000) = Num r" "11999 / 1000 - 1 / 1000000000000 < r"
      "r < 11999 / 1000 + 1 / 1000000000000" by auto
  from r(2,3) have b: "11 < r" "r < 12" by linarith+
  have "fixed2 r = fixed2 (rat_of_nat 1200 / 100)" using r(2,3) by (intro fixed2_eval) simp_all
  then have "fixed2 r = ''12.00''" by (simp add: example_fixed2)
  with b show ?thesis by (simp add: r(1) toFixed2_def)
qed

lemma example_parseFloat_more:
  "parseFloat ''10.001'' = to_double (10001 / 1000)"
  "parseFloat ''11.999'' = to_double (11999 / 1000)"
  by (simp_all add: parse_simps)

lemma case_not_NaN: "v \<noteq> NaN \<Longrightarrow> (case v of NaN \<Rightarrow> a | Num x \<Rightarrow> f (Num x) | PosInf \<Rightarrow> f PosInf | NegInf \<Rightarrow> f NegInf) = f v"
  by (cases v) simp_all

lemma example_parsePrice:
  "parsePrice (Some ''10'') = ''10.00''" "parsePrice (Some ''12'') = ''12.00''"
  "parsePrice (Some ''10.001'') = ''10.00''" "parsePrice (Some ''11.999'') = ''12.00''"
  by (simp_all add: parsePrice_def truthy_def price_char_def is_digit_def code_unit_def
      example_parseFloat example_parseFloat_more example_toFixed2 case_not_NaN to_double_not_NaN
      example_to_double_10001 example_to_double_11999)

lemma example_parseWeight: "parseWeight (Some ''1'') = Num 28"
proof -
  from to_double_close [of "2835 / 100"] obtain r where
    r: "to_double (2835 / 100) = Num r" "2835 / 100 - 1 / 1000000000000 < r"
      "r < 2835 / 100 + 1 / 1000000000000" by auto
  from r(2,3) have "1 / 100 \<le> r" "r \<le> 1000" by linarith+
  from to_double_close [OF this] obtain r' where
    r': "to_double r = Num r'" "r - 1 / 1000000000000 < r'" "r' < r + 1 / 1000000000000" by auto
  have "rat_of_int 28 \<le> r' + 1 / 2 \<and> r' + 1 / 2 < rat_of_int 28 + 1"
    using r(2,3) r'(2,3) by simp
  then have "\<lfloor>r' + 1 / 2\<rfloor> = 28" by (simp only: floor_eq_iff)
  then have m: "math_round (js_times (Num 1) (Num r)) = Num 28"
    by (simp add: math_round_def js_times_def r'(1))
  have "parseWeight (Some ''1'') = math_round (js_times (Num 1) (to_double (2835 / 100)))"
    by (simp add: parseWeight_def truthy_def price_char_def is_digit_def code_unit_def
        example_parseFloat)
  with m show ?thesis by (simp only: r(1))
qed

lemma example_parseInt: "parseInt (Some ''5'') = Num 5" "parseInt (Some ''9'') = Num 9"
  by (simp_all add: parseInt_def parse_simps to_double_numeral)

lemma floor_log10_digit: "1 \<le> x \<Longrightarrow> x < 10 \<Longrightarrow> floor_log 10 x = 0"
  using floor_log_unique [of 10 0 x] by simp

lemma shortest_digits_one:
  assumes "filter (reads_back x (Suc 0)) (digit_candidates x (Suc 0)) = [c]"
  shows "shortest_digits x = (fst c, snd c, 1)"
proof -
  have u: "[1..<18] = Suc 0 # [2..<18]" by (simp add: upt_rec)
  have "find (\<lambda>k. filter (reads_back x k) (digit_candidates x k) \<noteq> []) [1..<18] = Some (Suc 0)"
    unfolding u using assms by simp
  then show ?thesis using assms by (simp add: shortest_digits_def)
qed

lemma example_number_toString:
  "number_toString (Num 5) = ''5''" "number_toString (Num 9) = ''9''"
proof -
  have "filter (reads_back 5 (Suc 0)) (digit_candidates 5 (Suc 0)) = [(5, 1)]"
    by (simp add: digit_candidates_def floor_log10_digit Let_def reads_back_def decimal_value_def
        to_double_numeral)
  from shortest_digits_one [OF this] have s5: "shortest_digits 5 = (5, 1, 1)" by simp
  have "filter (reads_back 9 (Suc 0)) (digit_candidates 9 (Suc 0)) = [(9, 1)]"
    by (simp add: digit_candidates_def floor_log10_digit Let_def reads_back_def decimal_value_def
        to_double_numeral)
  from shortest_digits_one [OF this] have s9: "shortest_digits 9 = (9, 1, 1)" by simp
  show "number_toString (Num 5) = ''5''"
    by (simp add: number_toString_def number_toString_pos_def s5 example_dec_digits)
  show "number_toString (Num 9) = ''9''"
    by (simp add: number_toString_def number_toString_pos_def s9 example_dec_digits)
qed

lemma example_parseInt_number:
  "parseInt_number (Num 5) = Num 5" "parseInt_number (Num 9) = Num 9"
  by (simp_all add: parseInt_number_def example_number_toString example_parseInt)

section \<open>Properties of the comparator and of the patch builder\<close>

lemma in_set_changes:
  "set (changes (doesProductNeedUpdate R csvItem existingProduct))
     = set (compare_products (mapCSVToShopifyProduct R csvItem) existingProduct)"
  by (simp add: doesProductNeedUpdate_def Let_def)

lemma mapped_variants:
  "p_variants (mapCSVToShopifyProduct R csvItem) = [createVariant csvItem]"
  by (simp add: mapCSVToShopifyProduct_def)

lemma compare_products_first_variants:
  assumes "sp_variants e = Some (ev # r)" and "p_variants p = cv # r'"
  shows "Price \<in> set (compare_products p e) \<longleftrightarrow>
           strict_neq (parseFloat (v_price cv)) (parseFloat_opt (sv_price ev))"
    and "ComparePrice \<in> set (compare_products p e) \<longleftrightarrow>
           truthy (v_compare_at_price cv)
           \<and> strict_neq (parseFloat_opt (v_compare_at_price cv))
                (if truthy (sv_compare_at_price ev)
                 then parseFloat_opt (sv_compare_at_price ev) else Num 0)"
  by (simp_all add: compare_products_def variant_changes_def assms split: option.splits)

lemma ComparePrice_needs_truthy:
  assumes "ComparePrice \<in> set (compare_products p e)"
  shows "\<exists>cv r'. p_variants p = cv # r' \<and> truthy (v_compare_at_price cv)"
proof (cases "sp_variants e")
  case None
  with assms show ?thesis by (simp add: compare_products_def)
next
  case (Some vs)
  show ?thesis
  proof (cases vs)
    case Nil
    with Some assms show ?thesis by (simp add: compare_products_def)
  next
    case (Cons ev r)
    show ?thesis
    proof (cases "p_variants p")
      case Nil
      with Some Cons assms show ?thesis by (simp add: compare_products_def)
    next
      case c: (Cons cv r')
      with Some Cons assms show ?thesis by (simp add: compare_products_first_variants)
    qed
  qed
qed

lemma ComparePrice_absent:
  assumes "\<not> truthy (MSRP csvItem)"
  shows "ComparePrice \<notin> set (changes (doesProductNeedUpdate R csvItem existingProduct))"
proof -
  have n: "v_compare_at_price (createVariant csvItem) = None"
    using assms by (simp add: createVariant_def)
  have "ComparePrice \<notin> set (compare_products (mapCSVToShopifyProduct R csvItem) existingProduct)"
  proof
    assume "ComparePrice \<in> set (compare_products (mapCSVToShopifyProduct R csvItem) existingProduct)"
    from ComparePrice_needs_truthy [OF this] n show False
      by (simp add: mapped_variants truthy_def)
  qed
  then show ?thesis by (simp add: in_set_changes)
qed

text \<open>What a rendering starts with, and that it is read back as a number.\<close>

lemma dec_digits_hd: "\<exists>d ds. dec_digits n = d # ds \<and> is_digit d"
  using dec_digits_spec [of n] by (cases "dec_digits n") auto

lemma number_toString_pos_shape: "\<exists>d rest. is_digit d \<and> number_toString_pos x = d # rest"
proof -
  obtain s n k where sh: "shortest_digits x = (s, n, k)" by (cases "shortest_digits x") auto
  from dec_digits_hd [of s] obtain d ds where d: "dec_digits s = d # ds" "is_digit d" by blast
  have z: "is_digit CHR ''0''" by (simp add: is_digit_def code_unit_def)
  have t: "0 < n \<Longrightarrow> take (nat n) (d # ds) = d # take (nat n - 1) ds"
    by (cases "nat n") simp_all
  show ?thesis
    using d(2) z t by (auto simp: number_toString_pos_def sh d(1) Let_def)
qed

lemma fixed2_shape: "\<exists>d rest. is_digit d \<and> fixed2 a = d # rest"
proof -
  from fixed2_parts [of a] obtain ip fp where
    h: "fixed2 a = ip @ CHR ''.'' # fp" "ip \<noteq> []" "\<forall>c \<in> set ip. is_digit c" by blast
  then show ?thesis by (cases ip) auto
qed

lemma parseFloat_starts_with_digit:
  assumes "is_digit d"
  shows "parseFloat (d # rest) \<noteq> NaN" and "parseFloat (CHR ''-'' # d # rest) \<noteq> NaN"
proof -
  from digit_not_sign [OF assms] have 1: "d \<noteq> CHR ''-''" "d \<noteq> CHR ''+''" "\<not> is_space d" by simp_all
  have s: "\<not> is_space CHR ''-''" by (simp add: is_space_def code_unit_def)
  have i: "d \<noteq> CHR ''I''" using assms by (auto simp: is_digit_def code_unit_def)
  show "parseFloat (d # rest) \<noteq> NaN"
    using assms 1 i
    by (simp add: parseFloat_def split_sign_def Let_def to_double_not_NaN split: list.splits prod.splits)
  show "parseFloat (CHR ''-'' # d # rest) \<noteq> NaN"
    using assms 1 s i
    by (simp add: parseFloat_def split_sign_def Let_def to_double_not_NaN split: list.splits prod.splits)
qed

lemma parseFloat_Infinity: "parseFloat ''Infinity'' = PosInf" "parseFloat ''-Infinity'' = NegInf"
  by (simp_all add: parseFloat_def split_sign_def is_space_def is_digit_def code_unit_def)

lemma parseFloat_toFixed2: "p \<noteq> NaN \<Longrightarrow> parseFloat (toFixed2 p) \<noteq> NaN"
proof (cases p)
  case (Num x)
  from fixed2_shape [of "\<bar>x\<bar>"] obtain d rest where f: "is_digit d" "fixed2 \<bar>x\<bar> = d # rest" by blast
  from number_toString_pos_shape [of "\<bar>x\<bar>"] obtain d' rest' where
    n: "is_digit d'" "number_toString_pos \<bar>x\<bar> = d' # rest'" by blast
  have "10 ^ 21 \<le> \<bar>x\<bar> \<Longrightarrow> number_toString (Num \<bar>x\<bar>) = number_toString_pos \<bar>x\<bar>"
    by (auto simp: number_toString_def)
  then show ?thesis
    using parseFloat_starts_with_digit [OF f(1), of rest] parseFloat_starts_with_digit [OF n(1), of rest']
    by (simp add: Num toFixed2_def f(2) n(2))
qed (simp_all add: toFixed2_def number_toString_def parseFloat_Infinity)

lemma toFixed2_zero: "toFixed2 (Num 0) = ''0.00''"
proof -
  have "cents 0 = 0" by (simp add: cents_def)
  moreover have "dec_digits 0 = ''0''" by code_simp
  ultimately show ?thesis by (simp add: toFixed2_def fixed2_def Let_def)
qed

lemma parsePrice_rendering: "\<exists>p. p \<noteq> NaN \<and> parsePrice v = toFixed2 p"
proof (cases "truthy v \<and> parseFloat (filter price_char (the v)) \<noteq> NaN")
  case True
  then have "parsePrice v = toFixed2 (parseFloat (filter price_char (the v)))"
    by (simp add: parsePrice_def case_not_NaN)
  with True show ?thesis by blast
next
  case False
  then have "parsePrice v = ''0.00''" by (auto simp: parsePrice_def)
  then have "parsePrice v = toFixed2 (Num 0)" by (simp only: toFixed2_zero)
  then show ?thesis by blast
qed

lemma parseFloat_parsePrice: "parseFloat (parsePrice v) \<noteq> NaN"
proof -
  from parsePrice_rendering [of v] obtain p where "p \<noteq> NaN" "parsePrice v = toFixed2 p" by blast
  then show ?thesis by (simp add: parseFloat_toFixed2)
qed

lemma parsePrice_truthy: "truthy (Some (parsePrice v))"
proof -
  have "parseFloat [] = NaN" by (simp add: parseFloat_def split_sign_def)
  with parseFloat_parsePrice [of v] have "parsePrice v \<noteq> []" by auto
  then show ?thesis by (simp add: truthy_def)
qed

lemma strict_neq_self: "a \<noteq> NaN \<Longrightarrow> \<not> strict_neq a a"
  by (simp add: strict_neq_def)

subsection \<open>Runs on the example data\<close>

lemma example_createVariant:
  "createVariant (example_row None (Some ''10'') ''5'')
     = \<lparr>v_sku = ''Q1'', v_barcode = ''0123'', v_price = ''10.00'', v_compare_at_price = None,
        v_inventory_quantity = Num 5, v_weight = Num 28\<rparr>"
  "createVariant (example_row None (Some ''12'') ''9'')
     = \<lparr>v_sku = ''Q1'', v_barcode = ''0123'', v_price = ''12.00'', v_compare_at_price = None,
        v_inventory_quantity = Num 9, v_weight = Num 28\<rparr>"
  "createVariant (example_row (Some ''11.999'') (Some ''10'') ''5'')
     = \<lparr>v_sku = ''Q1'', v_barcode = ''0123'', v_price = ''12.00'',
        v_compare_at_price = Some ''12.00'', v_inventory_quantity = Num 5, v_weight = Num 28\<rparr>"
  by (simp_all add: createVariant_def example_row_def truthy_def or_else_def or_zero_def
      example_parsePrice example_parseInt example_parseWeight)

lemma example_mapped:
  "mapCSVToShopifyProduct example_renderers (example_row m c q)
     = \<lparr>p_title = ''Gold Ring'', p_handle = ''gold-ring'', p_body_html = ''<h3>Gold Ring</h3>'',
        p_product_type = ''Rings'', p_status = ''active'', p_tags = ''14k'',
        p_variants = [createVariant (example_row m c q)], p_images = [],
        p_category = 340, p_product_category_id = None\<rparr>"
proof -
  have h: "generateHandle (Some ''Gold Ring'') = ''gold-ring''" by code_simp
  show ?thesis
    by (simp add: mapCSVToShopifyProduct_def example_renderers_def example_row_def truthy_def
        or_else_def h)
qed

lemmas example_compare = doesProductNeedUpdate_def compare_products_def variant_changes_def
  example_mapped example_createVariant example_existing_def example_parseFloat
  example_parseFloat_more example_to_double_10001 example_to_double_10001(2) [THEN not_sym]
  example_parseInt_number parseFloat_opt_def
  strict_neq_def truthy_def or_zero_def to_double_numeral to_double_not_NaN

lemma example_changes_price:
  "changes (doesProductNeedUpdate example_renderers (example_row None (Some ''10'') ''5'')
     (example_existing ''10.001'' None 5)) = [Price]"
  by (simp add: example_compare)

lemma example_changes_price_inventory:
  "changes (doesProductNeedUpdate example_renderers (example_row None (Some ''12'') ''9'')
     (example_existing ''10.00'' None 5)) = [Price, Inventory]"
  by (simp add: example_compare)

lemma example_changes_none:
  "changes (doesProductNeedUpdate example_renderers (example_row None (Some ''10'') ''5'')
     (example_existing ''10.00'' (Some ''20.00'') 5)) = []"
  by (simp add: example_compare)

subsection \<open>The compare-at price\<close>

text \<open>
  Claim C10. When the row has no \<open>MSRP\<close> (missing or empty), the mapped variant has no
  compare-at price (\<open>null\<close>), and the comparator reports no compare-price change,
  whatever compare-at price the existing product has.
\<close>

theorem compare_price_needs_incoming:
  assumes "\<not> truthy (MSRP csvItem)"
  shows "v_compare_at_price (createVariant csvItem) = None
       \<and> ComparePrice \<notin> set (changes (doesProductNeedUpdate R csvItem existingProduct))"
  using assms ComparePrice_absent [OF assms] by (simp add: createVariant_def)

theorem compare_price_needs_incoming_witness:
  "MSRP (example_row None (Some ''10'') ''5'') = None
   \<and> sv_compare_at_price (hd (the (sp_variants (example_existing ''10.00'' (Some ''20.00'') 5))))
       = Some ''20.00''
   \<and> v_compare_at_price (createVariant (example_row None (Some ''10'') ''5'')) = None
   \<and> ComparePrice \<notin> set (changes (doesProductNeedUpdate example_renderers
         (example_row None (Some ''10'') ''5'') (example_existing ''10.00'' (Some ''20.00'') 5)))"
proof -
  have h: "\<not> truthy (MSRP (example_row None (Some ''10'') ''5''))"
    by (simp add: example_row_def truthy_def)
  from compare_price_needs_incoming [OF h, of example_renderers
      "example_existing ''10.00'' (Some ''20.00'') 5"]
  show ?thesis by (simp add: example_row_def example_existing_def)
qed

subsection \<open>Price comparison\<close>

lemma price_change_iff:
  assumes "sp_variants existingProduct = Some (existingVariant # rest)"
  shows "Price \<in> set (changes (doesProductNeedUpdate R csvItem existingProduct)) \<longleftrightarrow>
           strict_neq (parseFloat (v_price (createVariant csvItem)))
             (parseFloat_opt (sv_price existingVariant))"
  using assms
  by (simp add: in_set_changes compare_products_first_variants(1) mapped_variants)

lemma compare_price_change_iff:
  assumes "sp_variants existingProduct = Some (existingVariant # rest)"
  shows "ComparePrice \<in> set (changes (doesProductNeedUpdate R csvItem existingProduct)) \<longleftrightarrow>
           truthy (v_compare_at_price (createVariant csvItem))
           \<and> strict_neq (parseFloat_opt (v_compare_at_price (createVariant csvItem)))
                (if truthy (sv_compare_at_price existingVariant)
                 then parseFloat_opt (sv_compare_at_price existingVariant) else Num 0)"
  using assms
  by (simp add: in_set_changes compare_products_first_variants(2) mapped_variants)

lemma incoming_compare_at_price:
  "v_compare_at_price (createVariant csvItem) = None
   \<or> v_compare_at_price (createVariant csvItem) = Some (parsePrice (MSRP csvItem))"
  by (simp add: createVariant_def)

text \<open>
  The incoming price is the rendering of the number read from the row's price field, and of
  0 when the row has no price.
\<close>

lemma incoming_price_rendering:
  assumes "or_else (MSRP csvItem) (ContractPrice csvItem) = Some s" and "s \<noteq> []"
    and "parseFloat (filter price_char s) = Num x"
  shows "v_price (createVariant csvItem) = toFixed2 (Num x)"
  using assms by (simp add: createVariant_def parsePrice_def truthy_def)

lemma incoming_price_default:
  assumes "\<not> truthy (or_else (MSRP csvItem) (ContractPrice csvItem))"
  shows "v_price (createVariant csvItem) = toFixed2 (Num 0)"
  using assms by (simp add: createVariant_def parsePrice_def toFixed2_zero)

lemma toFixed2_truthy: "0 \<le> a \<Longrightarrow> a < 10 ^ 13 \<Longrightarrow> truthy (Some (toFixed2 (Num a)))"
  by (simp add: toFixed2_small truthy_def fixed2_not_empty)

text \<open>
  Claim C5, as amended. The incoming price is rendered with two decimals by \<open>parsePrice\<close>;
  the existing price is taken as the catalog stores it, and the comparator compares the
  numbers read back from the two strings. For a product with a first variant: an existing
  price that is the very string of the incoming rendering is never a change, and neither is
  an existing compare-at price equal to the incoming one. When the incoming and the
  existing price are both two-decimal renderings of amounts from 0 to below \<open>10 ^ 13\<close>, a
  price change is reported exactly when the two renderings differ as strings; likewise for
  the compare-at price of a row that has one, an absent or empty existing compare-at price
  counting as \<open>0.00\<close>.
\<close>

theorem prices_compared_by_rendering:
  assumes v: "sp_variants existingProduct = Some (existingVariant # rest)"
  shows "(sv_price existingVariant = Some (v_price (createVariant csvItem))
            \<longrightarrow> Price \<notin> set (changes (doesProductNeedUpdate R csvItem existingProduct)))
       \<and> (sv_compare_at_price existingVariant = v_compare_at_price (createVariant csvItem)
            \<longrightarrow> ComparePrice \<notin> set (changes (doesProductNeedUpdate R csvItem existingProduct)))
       \<and> (v_price (createVariant csvItem) = toFixed2 (Num x) \<and> 0 \<le> x \<and> x < 10 ^ 13
          \<and> sv_price existingVariant = Some (toFixed2 (Num y)) \<and> 0 \<le> y \<and> y < 10 ^ 13
            \<longrightarrow> (Price \<in> set (changes (doesProductNeedUpdate R csvItem existingProduct))
                   \<longleftrightarrow> toFixed2 (Num x) \<noteq> toFixed2 (Num y)))
       \<and> (v_compare_at_price (createVariant csvItem) = Some (toFixed2 (Num c))
          \<and> 0 \<le> c \<and> c < 10 ^ 13
          \<and> sv_compare_at_price existingVariant = Some (toFixed2 (Num z)) \<and> 0 \<le> z \<and> z < 10 ^ 13
            \<longrightarrow> (ComparePrice \<in> set (changes (doesProductNeedUpdate R csvItem existingProduct))
                   \<longleftrightarrow> toFixed2 (Num c) \<noteq> toFixed2 (Num z)))
       \<and> (v_compare_at_price (createVariant csvItem) = Some (toFixed2 (Num c))
          \<and> 0 \<le> c \<and> c < 10 ^ 13 \<and> \<not> truthy (sv_compare_at_price existingVariant)
            \<longrightarrow> (ComparePrice \<in> set (changes (doesProductNeedUpdate R csvItem existingProduct))
                   \<longleftrightarrow> toFixed2 (Num c) \<noteq> ''0.00''))"
proof (intro conjI impI)
  note p = price_change_iff [OF v, of R csvItem]
  note cp = compare_price_change_iff [OF v, of R csvItem]
  {
    assume "sv_price existingVariant = Some (v_price (createVariant csvItem))"
    moreover have "parseFloat (v_price (createVariant csvItem)) \<noteq> NaN"
      by (simp add: createVariant_def parseFloat_parsePrice)
    ultimately show "Price \<notin> set (changes (doesProductNeedUpdate R csvItem existingProduct))"
      unfolding p by (simp add: parseFloat_opt_def strict_neq_self)
  }
  {
    assume a: "sv_compare_at_price existingVariant = v_compare_at_price (createVariant csvItem)"
    from incoming_compare_at_price [of csvItem]
    show "ComparePrice \<notin> set (changes (doesProductNeedUpdate R csvItem existingProduct))"
    proof
      assume "v_compare_at_price (createVariant csvItem) = None"
      then show ?thesis unfolding cp by (simp add: truthy_def)
    next
      assume s: "v_compare_at_price (createVariant csvItem) = Some (parsePrice (MSRP csvItem))"
      with a show ?thesis
        unfolding cp
        by (simp add: parsePrice_truthy parseFloat_opt_def strict_neq_self parseFloat_parsePrice)
    qed
  }
  {
    assume a: "v_price (createVariant csvItem) = toFixed2 (Num x) \<and> 0 \<le> x \<and> x < 10 ^ 13
          \<and> sv_price existingVariant = Some (toFixed2 (Num y)) \<and> 0 \<le> y \<and> y < 10 ^ 13"
    then have "strict_neq (parseFloat (toFixed2 (Num x))) (parseFloat (toFixed2 (Num y)))
           \<longleftrightarrow> toFixed2 (Num x) \<noteq> toFixed2 (Num y)"
      by (intro rendering_compare) simp_all
    with a show "Price \<in> set (changes (doesProductNeedUpdate R csvItem existingProduct))
                   \<longleftrightarrow> toFixed2 (Num x) \<noteq> toFixed2 (Num y)"
      unfolding p by (simp add: parseFloat_opt_def)
  }
  {
    assume a: "v_compare_at_price (createVariant csvItem) = Some (toFixed2 (Num c))
          \<and> 0 \<le> c \<and> c < 10 ^ 13
          \<and> sv_compare_at_price existingVariant = Some (toFixed2 (Num z)) \<and> 0 \<le> z \<and> z < 10 ^ 13"
    then have "strict_neq (parseFloat (toFixed2 (Num c))) (parseFloat (toFixed2 (Num z)))
           \<longleftrightarrow> toFixed2 (Num c) \<noteq> toFixed2 (Num z)"
      by (intro rendering_compare) simp_all
    with a show "ComparePrice \<in> set (changes (doesProductNeedUpdate R csvItem existingProduct))
                   \<longleftrightarrow> toFixed2 (Num c) \<noteq> toFixed2 (Num z)"
      unfolding cp by (simp add: parseFloat_opt_def toFixed2_truthy)
  }
  {
    assume a: "v_compare_at_price (createVariant csvItem) = Some (toFixed2 (Num c))
          \<and> 0 \<le> c \<and> c < 10 ^ 13 \<and> \<not> truthy (sv_compare_at_price existingVariant)"
    then have "strict_neq (parseFloat (toFixed2 (Num c))) (Num 0)
           \<longleftrightarrow> toFixed2 (Num c) \<noteq> toFixed2 (Num 0)"
      by (intro rendering_zero) simp_all
    with a show "ComparePrice \<in> set (changes (doesProductNeedUpdate R csvItem existingProduct))
                   \<longleftrightarrow> toFixed2 (Num c) \<noteq> ''0.00''"
      unfolding cp by (simp add: parseFloat_opt_def toFixed2_truthy toFixed2_zero)
  }
qed


text \<open>
  A row whose \<open>MSRP\<close> \<open>11.999\<close> renders as \<open>12.00\<close>, against an existing product priced
  \<open>12.00\<close> with the compare-at price \<open>12.00\<close>, and against one priced \<open>12.01\<close> with no
  compare-at price.
\<close>

lemma example_toFixed2_1201: "toFixed2 (Num (1201 / 100)) = ''12.01''"
proof -
  have "cents (1201 / 100) = 1201" by (rule cents_eval) simp_all
  moreover have "dec_digits 1201 = ''1201''" by code_simp
  ultimately show ?thesis by (simp add: toFixed2_def fixed2_def Let_def)
qed

theorem prices_compared_by_rendering_witness:
  "MSRP (example_row (Some ''11.999'') (Some ''10'') ''5'') = Some ''11.999''
   \<and> v_price (createVariant (example_row (Some ''11.999'') (Some ''10'') ''5'')) = ''12.00''
   \<and> v_compare_at_price (createVariant (example_row (Some ''11.999'') (Some ''10'') ''5''))
       = Some ''12.00''
   \<and> Price \<notin> set (changes (doesProductNeedUpdate example_renderers
         (example_row (Some ''11.999'') (Some ''10'') ''5'')
         (example_existing ''12.00'' (Some ''12.00'') 5)))
   \<and> ComparePrice \<notin> set (changes (doesProductNeedUpdate example_renderers
         (example_row (Some ''11.999'') (Some ''10'') ''5'')
         (example_existing ''12.00'' (Some ''12.00'') 5)))
   \<and> Price \<in> set (changes (doesProductNeedUpdate example_renderers
         (example_row (Some ''11.999'') (Some ''10'') ''5'')
         (example_existing ''12.01'' None 5)))
   \<and> ComparePrice \<in> set (changes (doesProductNeedUpdate example_renderers
         (example_row (Some ''11.999'') (Some ''10'') ''5'')
         (example_existing ''12.01'' None 5)))"
proof -
  have a: "sp_variants (example_existing ''12.00'' (Some ''12.00'') 5)
     = Some (\<lparr> sv_id = 70, sv_sku = Some ''Q1'', sv_barcode = Some ''0123'',
               sv_price = Some ''12.00'', sv_compare_at_price = Some ''12.00'',
               sv_inventory_quantity = Some 5, sv_weight = Some 28 \<rparr> # [])"
    by (simp add: example_existing_def)
  have b: "sp_variants (example_existing ''12.01'' None 5)
     = Some (\<lparr> sv_id = 70, sv_sku = Some ''Q1'', sv_barcode = Some ''0123'',
               sv_price = Some ''12.01'', sv_compare_at_price = None,
               sv_inventory_quantity = Some 5, sv_weight = Some 28 \<rparr> # [])"
    by (simp add: example_existing_def)
  from prices_compared_by_rendering [OF a, of "example_row (Some ''11.999'') (Some ''10'') ''5''"
      example_renderers 12 12 12 12]
    prices_compared_by_rendering [OF b, of "example_row (Some ''11.999'') (Some ''10'') ''5''"
      example_renderers 12 "1201 / 100" 12 0]
  have "Price \<notin> set (changes (doesProductNeedUpdate example_renderers
         (example_row (Some ''11.999'') (Some ''10'') ''5'')
         (example_existing ''12.00'' (Some ''12.00'') 5)))
   \<and> ComparePrice \<notin> set (changes (doesProductNeedUpdate example_renderers
         (example_row (Some ''11.999'') (Some ''10'') ''5'')
         (example_existing ''12.00'' (Some ''12.00'') 5)))
   \<and> Price \<in> set (changes (doesProductNeedUpdate example_renderers
         (example_row (Some ''11.999'') (Some ''10'') ''5'')
         (example_existing ''12.01'' None 5)))
   \<and> ComparePrice \<in> set (changes (doesProductNeedUpdate example_renderers
         (example_row (Some ''11.999'') (Some ''10'') ''5'')
         (example_existing ''12.01'' None 5)))"
    by (simp add: example_createVariant example_toFixed2 example_toFixed2_1201 truthy_def)
  moreover have "MSRP (example_row (Some ''11.999'') (Some ''10'') ''5'') = Some ''11.999''"
    by (simp add: example_row_def)
  ultimately show ?thesis by (simp add: example_createVariant)
qed

text \<open>
  The claim as stated fails when the existing price is not itself a two-decimal rendering:
  the incoming price \<open>10\<close> and the existing price \<open>10.001\<close> both render as \<open>10.00\<close>, and
  a price change is reported.
\<close>

theorem rendering_equality_counterexample:
  "v_price (createVariant (example_row None (Some ''10'') ''5'')) = ''10.00''
   \<and> parsePrice (Some ''10.001'') = ''10.00''
   \<and> changes (doesProductNeedUpdate example_renderers
         (example_row None (Some ''10'') ''5'') (example_existing ''10.001'' None 5)) = [Price]"
  by (simp add: example_changes_price example_createVariant example_parsePrice)

subsection \<open>The patch\<close>

lemma variant_case_overwrites:
  assumes "sp_variants e = Some (ev # r)" and "p_variants p = cv # r'"
  shows "u_variants (variant_case b p e (variant_case a p e u))
           = Some [set_variant_field b cv (new_variant_update (sv_id ev))]"
  using assms by (simp add: variant_case_def)

lemma buildUpdateData_inventory_only:
  assumes "sp_variants e = Some (ev # r)" and "p_variants p = cv # r'"
  shows "buildUpdateData p e [Inventory] =
           \<lparr> u_id = sp_id e, u_title = None, u_body_html = None, u_product_type = None,
             u_tags = None, u_status = None, u_product_category_id = None, u_images = None,
             u_variants = Some [\<lparr> vu_id = sv_id ev, vu_price = None,
                                   vu_compare_at_price = None,
                                   vu_inventory_quantity = Some (v_inventory_quantity cv),
                                   vu_sku = None, vu_barcode = None, vu_weight = None \<rparr>] \<rparr>"
  using assms
  by (simp add: buildUpdateData_def apply_change_def variant_case_def set_variant_field_def
      new_variant_update_def)

text \<open>
  Claim C2 at a row whose price and quantity both differ from the existing product. The
  comparator names both fields, and the patch that \<open>buildUpdateData\<close> returns for these
  changes has one variant entry that carries the quantity only: the entry built for the
  price was replaced by the entry built for the quantity (\<open>variant_case_overwrites\<close>), so
  the changed variant fields are not merged and the price is not in the patch.
\<close>

theorem buildUpdateData_drops_price:
  "changes (doesProductNeedUpdate example_renderers (example_row None (Some ''12'') ''9'')
      (example_existing ''10.00'' None 5)) = [Price, Inventory]
   \<and> buildUpdateData
        (mapCSVToShopifyProduct example_renderers (example_row None (Some ''12'') ''9''))
        (example_existing ''10.00'' None 5) [Price, Inventory]
     = \<lparr> u_id = 7, u_title = None, u_body_html = None, u_product_type = None,
         u_tags = None, u_status = None, u_product_category_id = None, u_images = None,
         u_variants = Some [\<lparr> vu_id = 70, vu_price = None, vu_compare_at_price = None,
                               vu_inventory_quantity = Some (Num 9), vu_sku = None,
                               vu_barcode = None, vu_weight = None \<rparr>] \<rparr>"
proof (rule conjI)
  show "changes (doesProductNeedUpdate example_renderers (example_row None (Some ''12'') ''9'')
      (example_existing ''10.00'' None 5)) = [Price, Inventory]"
    by (rule example_changes_price_inventory)
  show "buildUpdateData
        (mapCSVToShopifyProduct example_renderers (example_row None (Some ''12'') ''9''))
        (example_existing ''10.00'' None 5) [Price, Inventory]
     = \<lparr> u_id = 7, u_title = None, u_body_html = None, u_product_type = None,
         u_tags = None, u_status = None, u_product_category_id = None, u_images = None,
         u_variants = Some [\<lparr> vu_id = 70, vu_price = None, vu_compare_at_price = None,
                               vu_inventory_quantity = Some (Num 9), vu_sku = None,
                               vu_barcode = None, vu_weight = None \<rparr>] \<rparr>"
    by (simp add: buildUpdateData_def apply_change_def variant_case_def set_variant_field_def
        new_variant_update_def example_mapped example_createVariant example_existing_def)
qed

section \<open>Properties of the batch dispatcher\<close>

subsection \<open>One item\<close>

lemma process_item_real:
  "process_item R api False it (w, tr) =
     (case api w (request_of R it) of
        (Inl msg, w') \<Rightarrow> (Inl msg, (w', tr @ [Net (request_of R it)]))
      | (Inr p, w') \<Rightarrow>
          (Inr (Success (if is_create it then Created else Updated) (RemoteProduct p)),
           (w', tr @ [Net (request_of R it)])))"
  by (cases it)
     (auto simp: process_item_def processCreateItem_def processUpdateItem_def call_api_def
        request_of_def is_create_def Let_def split: prod.splits sum.splits)

lemma process_item_dry:
  "\<exists>p. process_item R api True it n
         = (Inr (Success (if is_create it then DryRunCreate else DryRunUpdate) p), n)"
  by (cases it)
     (auto simp: process_item_def processCreateItem_def processUpdateItem_def is_create_def Let_def)

lemma item_promise_real:
  "item_promise R api False it (w, tr) =
     (outcome_of it (fst (api w (request_of R it))),
      (snd (api w (request_of R it)), tr @ [Net (request_of R it)]))"
  by (auto simp: item_promise_def process_item_real outcome_of_def split: prod.splits sum.splits)

lemma accounted_record_error [simp]:
  "accounted (record_error name msg res) = accounted res + 1"
  by (simp add: accounted_def record_error_def)

lemma accounted_record_success:
  "accounted (record_success ty p res) = accounted res + (if ty = Created \<or> ty = Updated then 1 else 0)"
  by (simp add: accounted_def record_success_def)

subsection \<open>A batch in parallel\<close>

lemma length_api_responses [simp]: "length (api_responses api w cs) = length cs"
  by (induction cs arbitrary: w) (auto split: prod.splits)

lemma all_settled_real:
  "all_settled R api False batch (w, tr) =
     (map (\<lambda>(it, r). outcome_of it r) (zip batch (api_responses api w (map (request_of R) batch))),
      (api_world api w (map (request_of R) batch), tr @ map Net (map (request_of R) batch)))"
proof (induction batch arbitrary: w tr)
  case Nil
  then show ?case by simp
next
  case (Cons it its)
  obtain r w' where a: "api w (request_of R it) = (r, w')" by (cases "api w (request_of R it)")
  show ?case
    by (simp add: item_promise_real a Cons.IH)
qed

lemma zip_map_zip:
  "zip xs (map (\<lambda>(x, y). f x y) (zip xs ys)) = map (\<lambda>(x, y). (x, f x y)) (zip xs ys)"
proof (induction xs arbitrary: ys)
  case Nil
  then show ?case by simp
next
  case (Cons x xs)
  then show ?case by (cases ys) simp_all
qed

lemma tally_outcome:
  "tally res (it, outcome_of it r) =
     (case r of
        Inl msg \<Rightarrow> record_error (item_name it) msg res
      | Inr p \<Rightarrow> record_success (if is_create it then Created else Updated) (RemoteProduct p) res)"
  by (simp add: tally_def outcome_of_def split: sum.splits)

lemma foldl_tally:
  fixes prs :: "(('a, 'c) item \<times> (string + 'c shop_product)) list"
  defines "failed \<equiv> filter (isl \<circ> snd)"
  shows "errors (foldl tally res (map (\<lambda>(it, r). (it, outcome_of it r)) prs))
           = errors res + length (failed prs)"
    and "errorDetails (foldl tally res (map (\<lambda>(it, r). (it, outcome_of it r)) prs))
           = errorDetails res @ map (\<lambda>(it, r). (item_name it, projl r)) (failed prs)"
    and "created (foldl tally res (map (\<lambda>(it, r). (it, outcome_of it r)) prs))
         + updated (foldl tally res (map (\<lambda>(it, r). (it, outcome_of it r)) prs))
         + length (failed prs)
           = created res + updated res + length prs"
    and "skipped (foldl tally res (map (\<lambda>(it, r). (it, outcome_of it r)) prs)) = skipped res"
proof (induction prs arbitrary: res)
  case Nil
  {
    case 1 show ?case by (simp add: failed_def)
  next
    case 2 show ?case by (simp add: failed_def)
  next
    case 3 show ?case by (simp add: failed_def)
  next
    case 4 show ?case by simp
  }
next
  case (Cons pr prs)
  obtain it r where pr: "pr = (it, r)" by (cases pr)
  {
    case 1 show ?case
      by (cases r) (simp_all add: pr tally_outcome Cons.IH(1) failed_def record_error_def record_success_def)
  next
    case 2 show ?case
      by (cases r) (simp_all add: pr tally_outcome Cons.IH(2) failed_def record_error_def record_success_def)
  next
    case 3 show ?case
      using Cons.IH(3) [of "tally res (it, outcome_of it r)"]
      by (cases r) (simp_all add: pr tally_outcome failed_def record_error_def record_success_def)
  next
    case 4 show ?case
      by (cases r) (simp_all add: pr tally_outcome Cons.IH(4) record_error_def record_success_def)
  }
qed

lemma parallel_real:
  "processBatchParallelWithUpdates R api False batch ((w, tr), res) =
     ((api_world api w (map (request_of R) batch), tr @ map Net (map (request_of R) batch)),
      foldl tally res (map (\<lambda>(it, r). (it, outcome_of it r))
        (zip batch (api_responses api w (map (request_of R) batch)))))"
  by (simp add: processBatchParallelWithUpdates_def all_settled_real zip_map_zip)


subsection \<open>A batch in sequence\<close>

lemma sequential_dry:
  "processBatchSequentialWithUpdates R api True batch ((w, tr), res)
     = ((w, tr @ replicate (length batch) (Delay 100)), res)"
proof (induction batch arbitrary: tr)
  case Nil
  then show ?case by simp
next
  case (Cons it its)
  from process_item_dry [of R api it "(w, tr)"] obtain p where
    "process_item R api True it (w, tr)
       = (Inr (Success (if is_create it then DryRunCreate else DryRunUpdate) p), (w, tr))"
    by blast
  then show ?case
    by (simp add: Cons.IH record_success_def replicate_append_same)
qed

lemma sequential_real:
  "\<exists>w' evs. processBatchSequentialWithUpdates R api False batch ((w, tr), res)
              = ((w', tr @ evs), snd (processBatchSequentialWithUpdates R api False batch ((w, tr), res)))
          \<and> (\<forall>e \<in> set evs. \<not> is_BatchStart e)
          \<and> accounted (snd (processBatchSequentialWithUpdates R api False batch ((w, tr), res)))
              = accounted res + length batch"
proof (induction batch arbitrary: w tr res)
  case Nil
  then show ?case by simp
next
  case (Cons it its)
  obtain r w1 where a: "api w (request_of R it) = (r, w1)" by (cases "api w (request_of R it)")
  define tr1 res1 where "tr1 = tr @ [Net (request_of R it)] @ (if isl r then [] else [Delay 100])"
    and "res1 = (case r of Inl msg \<Rightarrow> record_error (item_name it) msg res
                 | Inr p \<Rightarrow> record_success (if is_create it then Created else Updated) (RemoteProduct p) res)"
  have step: "processBatchSequentialWithUpdates R api False (it # its) ((w, tr), res)
        = processBatchSequentialWithUpdates R api False its ((w1, tr1), res1)"
    by (cases r) (simp_all add: process_item_real a tr1_def res1_def)
  have acc: "accounted res1 = accounted res + 1"
    by (cases r) (simp_all add: res1_def accounted_record_success)
  from Cons.IH [of w1 tr1 res1] obtain w' evs where
    i: "processBatchSequentialWithUpdates R api False its ((w1, tr1), res1)
          = ((w', tr1 @ evs), snd (processBatchSequentialWithUpdates R api False its ((w1, tr1), res1)))"
    and n: "\<forall>e \<in> set evs. \<not> is_BatchStart e"
    and c: "accounted (snd (processBatchSequentialWithUpdates R api False its ((w1, tr1), res1)))
              = accounted res1 + length its"
    by blast
  let ?evs = "[Net (request_of R it)] @ (if isl r then [] else [Delay 100]) @ evs"
  have "processBatchSequentialWithUpdates R api False (it # its) ((w, tr), res)
          = ((w', tr @ ?evs), snd (processBatchSequentialWithUpdates R api False (it # its) ((w, tr), res)))"
    unfolding step using i by (simp add: tr1_def)
  moreover have "\<forall>e \<in> set ?evs. \<not> is_BatchStart e"
    using n by (simp add: is_BatchStart_def)
  moreover have "accounted (snd (processBatchSequentialWithUpdates R api False (it # its) ((w, tr), res)))
              = accounted res + length (it # its)"
    unfolding step using c acc by simp
  ultimately show ?case by blast
qed

subsection \<open>One round of the loop\<close>

lemma emit_simps [simp]:
  "emit e ((w, tr), res) = ((w, tr @ [e]), res)"
  by (simp add: emit_def)

lemma process_batch_real:
  assumes "\<not> dryRun opts"
  shows "\<exists>w' evs. process_batch R api opts items i ((w, tr), res)
            = ((w', tr @ BatchStart i (length (js_slice items i (i + batchSize opts))) # evs),
               snd (process_batch R api opts items i ((w, tr), res)))
          \<and> (\<forall>e \<in> set evs. \<not> is_BatchStart e)
          \<and> accounted (snd (process_batch R api opts items i ((w, tr), res)))
              = accounted res + length (js_slice items i (i + batchSize opts))"
proof -
  define batch where "batch = js_slice items i (i + batchSize opts)"
  define tr1 where "tr1 = tr @ [BatchStart i (length batch)]"
  define st2 where "st2 = (if parallelBatch opts
        then processBatchParallelWithUpdates R api False batch ((w, tr1), res)
        else processBatchSequentialWithUpdates R api False batch ((w, tr1), res))"
  have pb: "process_batch R api opts items i ((w, tr), res)
      = (if i + batchSize opts < int (length items)
         then emit (Delay (delayBetweenBatches opts)) st2 else st2)"
    using assms by (simp add: process_batch_def Let_def batch_def tr1_def st2_def)
  have "\<exists>w2 evs. st2 = ((w2, tr1 @ evs), snd st2) \<and> (\<forall>e \<in> set evs. \<not> is_BatchStart e)
          \<and> accounted (snd st2) = accounted res + length batch"
  proof (cases "parallelBatch opts")
    case True
    let ?prs = "zip batch (api_responses api w (map (request_of R) batch))"
    have l: "length ?prs = length batch" by simp
    from foldl_tally(1,3,4) [of res ?prs]
    have "accounted (foldl tally res (map (\<lambda>(it, r). (it, outcome_of it r)) ?prs))
            = accounted res + length batch"
      unfolding accounted_def l by linarith
    with True show ?thesis
      by (auto simp: st2_def parallel_real is_BatchStart_def)
  next
    case False
    with sequential_real [of R api batch w tr1 res] show ?thesis
      by (simp add: st2_def)
  qed
  then obtain w2 evs where s: "st2 = ((w2, tr1 @ evs), snd st2)"
    and n: "\<forall>e \<in> set evs. \<not> is_BatchStart e"
    and c: "accounted (snd st2) = accounted res + length batch" by blast
  show ?thesis
  proof (cases "i + batchSize opts < int (length items)")
    case True
    have "emit (Delay (delayBetweenBatches opts)) st2
            = ((w2, tr1 @ evs @ [Delay (delayBetweenBatches opts)]), snd st2)"
      by (subst s) simp
    with True pb n c show ?thesis
      by (simp add: tr1_def batch_def is_BatchStart_def)
  next
    case False
    with pb s n c show ?thesis
      by (simp add: tr1_def batch_def) metis
  qed
qed

lemma process_batch_dry:
  assumes "dryRun opts"
  shows "process_batch R api opts items i ((w, tr), res)
           = ((w, tr @ BatchStart i (length (js_slice items i (i + batchSize opts)))
                  # replicate (length (js_slice items i (i + batchSize opts))) (Delay 100)
                  @ (if i + batchSize opts < int (length items)
                     then [Delay (delayBetweenBatches opts)] else [])),
              res)"
  using assms by (simp add: process_batch_def Let_def sequential_dry)


subsection \<open>The loop\<close>

lemma loop_unroll:
  assumes "0 < batchSize opts"
  shows "batch_loop R api opts items i st
           = Some (foldl (\<lambda>s k. process_batch R api opts items k s) st
                     (batch_starts (batchSize opts) (int (length items)) i))"
proof (induction "batchSize opts" "int (length items)" i arbitrary: st rule: batch_starts.induct)
  case (1 i)
  show ?case
  proof (cases "i < int (length items)")
    case True
    with assms 1 [of "process_batch R api opts items i st"] show ?thesis
      by (subst batch_loop.simps, subst batch_starts.simps) simp
  next
    case False
    then show ?thesis
      by (subst batch_loop.simps, subst batch_starts.simps) simp
  qed
qed

lemma length_js_slice:
  assumes "0 \<le> i" and "i < int (length items)" and "0 < B"
  shows "length (js_slice items i (i + B)) = nat (min B (int (length items) - i))"
  using assms by (auto simp: js_slice_def Let_def min_def)

lemma sum_slices:
  "0 < B \<Longrightarrow> 0 \<le> i \<Longrightarrow>
         sum_list (map (\<lambda>k. length (js_slice items k (k + B))) (batch_starts B (int (length items)) i))
           = nat (int (length items) - i)"
proof (induction B "int (length items)" i rule: batch_starts.induct)
  case (1 B i)
  show ?case
  proof (cases "i < int (length items)")
    case True
    with 1 have ih: "sum_list (map (\<lambda>k. length (js_slice items k (k + B)))
             (batch_starts B (int (length items)) (i + B))) = nat (int (length items) - (i + B))"
      by simp
    have l: "length (js_slice items i (i + B)) + nat (int (length items) - (i + B))
               = nat (int (length items) - i)"
      using True 1(2,3) by (simp add: length_js_slice min_def) linarith
    from True 1(2) show ?thesis
      by (subst batch_starts.simps) (simp add: ih l)
  next
    case False
    then show ?thesis by (subst batch_starts.simps) simp
  qed
qed

lemma length_batch_starts:
  "0 < B \<Longrightarrow>
   int (length (batch_starts B N i)) = max 0 \<lceil>real_of_int (N - i) / real_of_int B\<rceil>"
proof (induction B N i rule: batch_starts.induct)
  case (1 B N i)
  show ?case
  proof (cases "i < N")
    case True
    with 1 have ih: "int (length (batch_starts B N (i + B)))
        = max 0 \<lceil>real_of_int (N - (i + B)) / real_of_int B\<rceil>"
      by simp
    have e: "real_of_int (N - (i + B)) / real_of_int B = real_of_int (N - i) / real_of_int B - 1"
      using 1(2) by (simp add: field_simps)
    have c: "\<lceil>real_of_int (N - (i + B)) / real_of_int B\<rceil>
               = \<lceil>real_of_int (N - i) / real_of_int B\<rceil> - 1"
      by (simp only: e ceiling_diff_one)
    have "0 < real_of_int (N - i) / real_of_int B" using True 1(2) by simp
    then have p: "1 \<le> \<lceil>real_of_int (N - i) / real_of_int B\<rceil>" by (simp add: less_ceiling_iff)
    have "int (length (batch_starts B N i)) = 1 + int (length (batch_starts B N (i + B)))"
      using True 1(2) by (subst batch_starts.simps) simp
    with ih c p show ?thesis by simp
  next
    case False
    then have "real_of_int (N - i) / real_of_int B \<le> 0"
      using 1(2) by (simp add: divide_le_0_iff)
    then have "\<lceil>real_of_int (N - i) / real_of_int B\<rceil> \<le> 0" by (simp add: ceiling_le_iff)
    with False show ?thesis by (subst batch_starts.simps) simp
  qed
qed


lemma fold_batches_real:
  assumes "\<not> dryRun opts"
  shows "\<exists>w' evs res'.
           foldl (\<lambda>s k. process_batch R api opts items k s) ((w, tr), res) ks = ((w', tr @ evs), res')
         \<and> filter is_BatchStart evs
             = map (\<lambda>k. BatchStart k (length (js_slice items k (k + batchSize opts)))) ks
         \<and> accounted res'
             = accounted res + sum_list (map (\<lambda>k. length (js_slice items k (k + batchSize opts))) ks)"
proof (induction ks arbitrary: w tr res)
  case Nil
  then show ?case by simp
next
  case (Cons k ks)
  from process_batch_real [OF assms, of R api items k w tr res] obtain w1 evs1 res1 where
    p: "process_batch R api opts items k ((w, tr), res)
          = ((w1, tr @ BatchStart k (length (js_slice items k (k + batchSize opts))) # evs1), res1)"
    and n: "\<forall>e \<in> set evs1. \<not> is_BatchStart e"
    and c: "accounted res1 = accounted res + length (js_slice items k (k + batchSize opts))"
    by (metis snd_conv)
  let ?tr1 = "tr @ BatchStart k (length (js_slice items k (k + batchSize opts))) # evs1"
  from Cons.IH [of w1 ?tr1 res1] obtain w' evs res' where
    f: "foldl (\<lambda>s k. process_batch R api opts items k s) ((w1, ?tr1), res1) ks
          = ((w', ?tr1 @ evs), res')"
    and b: "filter is_BatchStart evs
             = map (\<lambda>k. BatchStart k (length (js_slice items k (k + batchSize opts)))) ks"
    and a: "accounted res'
             = accounted res1 + sum_list (map (\<lambda>k. length (js_slice items k (k + batchSize opts))) ks)"
    by blast
  let ?evs = "BatchStart k (length (js_slice items k (k + batchSize opts))) # evs1 @ evs"
  have "foldl (\<lambda>s k. process_batch R api opts items k s) ((w, tr), res) (k # ks)
          = ((w', tr @ ?evs), res')"
    by (simp add: p f)
  moreover have "filter is_BatchStart ?evs
      = map (\<lambda>k. BatchStart k (length (js_slice items k (k + batchSize opts)))) (k # ks)"
    using n b by (simp add: is_BatchStart_def)
  moreover have "accounted res' = accounted res
      + sum_list (map (\<lambda>k. length (js_slice items k (k + batchSize opts))) (k # ks))"
    using a c by simp
  ultimately show ?case by blast
qed

lemma fold_batches_dry:
  assumes "dryRun opts"
  shows "\<exists>evs. foldl (\<lambda>s k. process_batch R api opts items k s) ((w, tr), res) ks
                  = ((w, tr @ evs), res)
             \<and> (\<forall>e \<in> set evs. \<not> is_Net e)"
proof (induction ks arbitrary: tr)
  case Nil
  then show ?case by simp
next
  case (Cons k ks)
  let ?evs1 = "BatchStart k (length (js_slice items k (k + batchSize opts)))
                  # replicate (length (js_slice items k (k + batchSize opts))) (Delay 100)
                  @ (if k + batchSize opts < int (length items)
                     then [Delay (delayBetweenBatches opts)] else [])"
  from Cons.IH [of "tr @ ?evs1"] obtain evs where
    f: "foldl (\<lambda>s k. process_batch R api opts items k s) ((w, tr @ ?evs1), res) ks
          = ((w, (tr @ ?evs1) @ evs), res)"
    and n: "\<forall>e \<in> set evs. \<not> is_Net e" by blast
  have "foldl (\<lambda>s k. process_batch R api opts items k s) ((w, tr), res) (k # ks)
          = ((w, tr @ (?evs1 @ evs)), res)"
    using f by (simp add: process_batch_dry [OF assms])
  moreover have "\<forall>e \<in> set (?evs1 @ evs). \<not> is_Net e"
    using n by (auto simp: is_Net_def)
  ultimately show ?case by blast
qed

lemma accounted_init [simp]: "accounted (init_results n) = 0"
  by (simp add: accounted_def init_results_def)

lemma dispatch_real:
  assumes "0 < batchSize opts" and "\<not> dryRun opts"
  shows "\<exists>w' tr res'. dispatch R api opts n items w = Some ((w', tr), res')
           \<and> filter is_BatchStart tr
               = map (\<lambda>k. BatchStart k (length (js_slice items k (k + batchSize opts))))
                   (batch_starts (batchSize opts) (int (length items)) 0)
           \<and> int (length (filter is_BatchStart tr))
               = \<lceil>real (length items) / real_of_int (batchSize opts)\<rceil>
           \<and> accounted res' = length items"
proof -
  let ?ks = "batch_starts (batchSize opts) (int (length items)) 0"
  from fold_batches_real [OF assms(2), of R api items w "[]" "init_results n" ?ks]
  obtain w' evs res' where
    f: "foldl (\<lambda>s k. process_batch R api opts items k s) ((w, []), init_results n) ?ks
          = ((w', evs), res')"
    and b: "filter is_BatchStart evs
             = map (\<lambda>k. BatchStart k (length (js_slice items k (k + batchSize opts)))) ?ks"
    and a: "accounted res' = accounted (init_results n)
             + sum_list (map (\<lambda>k. length (js_slice items k (k + batchSize opts))) ?ks)"
    by auto
  have d: "dispatch R api opts n items w = Some ((w', evs), res')"
    by (simp add: dispatch_def loop_unroll [OF assms(1)] f)
  have "0 \<le> real (length items) / real_of_int (batchSize opts)" using assms(1) by simp
  then have "0 \<le> \<lceil>real (length items) / real_of_int (batchSize opts)\<rceil>"
    by (simp add: le_ceiling_iff)
  then have l: "int (length (filter is_BatchStart evs))
               = \<lceil>real (length items) / real_of_int (batchSize opts)\<rceil>"
    using length_batch_starts [OF assms(1), of "int (length items)" 0] by (simp add: b)
  have "accounted res' = length items"
    using a sum_slices [OF assms(1), of 0 items] by simp
  with d b l show ?thesis by blast
qed

lemma dispatch_dry:
  assumes "0 < batchSize opts" and "dryRun opts"
  shows "\<exists>tr. dispatch R api opts n items w = Some ((w, tr), init_results n)
           \<and> (\<forall>e \<in> set tr. \<not> is_Net e)"
  using fold_batches_dry [OF assms(2), of R api items w "[]" "init_results n"
      "batch_starts (batchSize opts) (int (length items)) 0"]
  by (simp add: dispatch_def loop_unroll [OF assms(1)])


subsection \<open>Dry runs\<close>

lemma batch_starts_single: "0 < N \<Longrightarrow> N \<le> B \<Longrightarrow> batch_starts B N 0 = [0]"
  by (subst batch_starts.simps, subst batch_starts.simps) simp

lemma js_slice_all: "int (length xs) \<le> j \<Longrightarrow> js_slice xs 0 j = xs"
  by (simp add: js_slice_def Let_def min_def)

lemma dispatch_dry_single:
  assumes "items \<noteq> []" and "length items \<le> 10"
  shows "dispatch R api (example_options True par) n items w
           = Some ((w, BatchStart 0 (length items) # replicate (length items) (Delay 100)),
                   init_results n)"
proof -
  have o: "batchSize (example_options True par) = 10" "dryRun (example_options True par)"
    by (simp_all add: example_options_def)
  have ks: "batch_starts 10 (int (length items)) 0 = [0]"
    using assms by (intro batch_starts_single) simp_all
  have sl: "js_slice items 0 10 = items"
    using assms by (intro js_slice_all) simp
  show ?thesis
    using assms
    by (simp add: dispatch_def loop_unroll o ks process_batch_dry sl)
qed

text \<open>
  Claim C1 at a dry run of one create item with the default batch size. The run has its
  one batch, the item operation succeeds (as \<open>dry-run-create\<close>), and no counter moves:
  \<open>created + updated + skipped + errors\<close> is 0, not 1. (For a run that is not a dry run
  the count is the number of items, and for every positive batch size the number of
  batches is the ceiling of \<open>N / B\<close>: \<open>dispatch_real\<close>.)
\<close>

theorem dry_run_items_unaccounted:
  "dispatch R api (example_options True par) 1 [CreateItem csvItem] w
     = Some ((w, [BatchStart 0 1, Delay 100]), init_results 1)
   \<and> accounted (snd (the (dispatch R api (example_options True par) 1 [CreateItem csvItem] w))) = 0"
  by (simp add: dispatch_dry_single)

text \<open>
  Claim C3 at a dry run of five create items and three update items. No request is sent
  (the trace holds the start of the one batch and the pacing delays only), and the result
  reports no create and no update: \<open>record_success\<close> counts the types \<open>created\<close> and
  \<open>updated\<close>, not \<open>dry-run-create\<close> and \<open>dry-run-update\<close>.
\<close>

theorem dry_run_counts_nothing:
  "dispatch R api (example_options True par) 8
       (replicate 5 (CreateItem csvItem) @ replicate 3 (UpdateItem csvItem existingProduct chs)) w
     = Some ((w, BatchStart 0 8 # replicate 8 (Delay 100)), init_results 8)
   \<and> created (snd (the (dispatch R api (example_options True par) 8
       (replicate 5 (CreateItem csvItem) @ replicate 3 (UpdateItem csvItem existingProduct chs)) w))) = 0
   \<and> updated (snd (the (dispatch R api (example_options True par) 8
       (replicate 5 (CreateItem csvItem) @ replicate 3 (UpdateItem csvItem existingProduct chs)) w))) = 0"
  by (simp add: dispatch_dry_single init_results_def)

subsection \<open>Failures in a parallel batch\<close>

text \<open>
  Claim C4, as amended. With \<open>parallelBatch\<close> set and \<open>dryRun\<close> off, a round of the loop
  sends exactly one request for every item of the batch, all of them before any pacing
  delay and whatever the answers to the earlier ones are (no item is skipped after a
  failure, none is sent twice). Each item is then counted by its own answer alone: the
  items whose request failed add one to \<open>errors\<close> each and one entry (the item's name and
  the message) to \<open>errorDetails\<close>, in the order of the batch, and every other item is
  counted as created or updated. That the requests overlap in time is not expressed in
  this model; the trace records the order in which they are issued.
\<close>

theorem parallel_batch_isolates_failures:
  assumes "parallelBatch opts" and "\<not> dryRun opts"
  shows "let batch = js_slice items i (i + batchSize opts);
             reqs = map (request_of R) batch;
             resps = api_responses api w reqs;
             failed = filter (isl \<circ> snd) (zip batch resps);
             st' = process_batch R api opts items i ((w, tr), res)
         in snd (fst st')
              = tr @ BatchStart i (length batch) # map Net reqs
                  @ (if i + batchSize opts < int (length items)
                     then [Delay (delayBetweenBatches opts)] else [])
          \<and> errors (snd st') = errors res + length failed
          \<and> errorDetails (snd st')
              = errorDetails res @ map (\<lambda>(it, r). (item_name it, projl r)) failed
          \<and> created (snd st') + updated (snd st') + length failed
              = created res + updated res + length batch
          \<and> skipped (snd st') = skipped res"
proof -
  define batch where "batch = js_slice items i (i + batchSize opts)"
  define reqs where "reqs = map (request_of R) batch"
  define prs where "prs = zip batch (api_responses api w reqs)"
  define res' where "res' = foldl tally res (map (\<lambda>(it, r). (it, outcome_of it r)) prs)"
  have l: "length prs = length batch" by (simp add: prs_def reqs_def)
  have pb: "process_batch R api opts items i ((w, tr), res)
      = ((api_world api w reqs,
          tr @ BatchStart i (length batch) # map Net reqs
             @ (if i + batchSize opts < int (length items)
                then [Delay (delayBetweenBatches opts)] else [])), res')"
    using assms
    by (simp add: process_batch_def Let_def parallel_real batch_def reqs_def prs_def res'_def)
  from foldl_tally [of res prs] l
  have "errors res' = errors res + length (filter (isl \<circ> snd) prs)"
    and "errorDetails res'
           = errorDetails res @ map (\<lambda>(it, r). (item_name it, projl r)) (filter (isl \<circ> snd) prs)"
    and "created res' + updated res' + length (filter (isl \<circ> snd) prs)
           = created res + updated res + length batch"
    and "skipped res' = skipped res"
    by (simp_all add: res'_def)
  then show ?thesis
    unfolding Let_def pb batch_def [symmetric] reqs_def [symmetric] prs_def [symmetric]
    by simp
qed


lemma example_item_name: "item_name (CreateItem (example_row m c q)) = ''Q1''"
  by (simp add: item_name_def item_csv_def example_row_def truthy_def)

theorem parallel_batch_isolates_failures_witness:
  "parallelBatch (example_options False True)
   \<and> dryRun (example_options False True) = False
   \<and> errors (snd (process_batch example_renderers example_api (example_options False True)
         [CreateItem (example_row None (Some ''10'') ''5''),
          CreateItem (example_row None (Some ''11'') ''5''),
          CreateItem (example_row None (Some ''12'') ''5'')] 0
         ((0, []), init_results 3))) = 1
   \<and> errorDetails (snd (process_batch example_renderers example_api (example_options False True)
         [CreateItem (example_row None (Some ''10'') ''5''),
          CreateItem (example_row None (Some ''11'') ''5''),
          CreateItem (example_row None (Some ''12'') ''5'')] 0
         ((0, []), init_results 3))) = [(''Q1'', ''Request failed with status code 429'')]
   \<and> created (snd (process_batch example_renderers example_api (example_options False True)
         [CreateItem (example_row None (Some ''10'') ''5''),
          CreateItem (example_row None (Some ''11'') ''5''),
          CreateItem (example_row None (Some ''12'') ''5'')] 0
         ((0, []), init_results 3))) = 2"
proof -
  let ?items = "[CreateItem (example_row None (Some ''10'') ''5''),
          CreateItem (example_row None (Some ''11'') ''5''),
          CreateItem (example_row None (Some ''12'') ''5'')] :: (unit, nat) item list"
  have p: "parallelBatch (example_options False True)" by (simp add: example_options_def)
  have d: "\<not> dryRun (example_options False True)" by (simp add: example_options_def)
  have b: "batchSize (example_options False True) = 10" by (simp add: example_options_def)
  have sl: "js_slice ?items 0 10 = ?items"
    by (intro js_slice_all) simp
  have u: "updated (snd (process_batch example_renderers example_api (example_options False True)
         ?items 0 ((0, []), init_results 3))) = 0"
    by (simp add: process_batch_def Let_def p d b sl parallel_real example_api_def
        tally_outcome record_success_def record_error_def is_create_def init_results_def)
  from parallel_batch_isolates_failures [OF p d, of ?items 0 example_renderers
      example_api 0 "[]" "init_results 3"] u
  show ?thesis
    by (simp add: Let_def p d b sl example_api_def example_item_name init_results_def)
qed

theorem parallel_flag_dry_run_counterexample:
  "parallelBatch (example_options True True)
   \<and> process_batch example_renderers example_api (example_options True True)
       [CreateItem (example_row None (Some ''10'') ''5''),
        CreateItem (example_row None (Some ''10'') ''5'')] 0 ((0, []), init_results 2)
     = ((0, [BatchStart 0 2, Delay 100, Delay 100]), init_results 2)"
proof -
  have o: "batchSize (example_options True True) = 10" "dryRun (example_options True True)"
    "parallelBatch (example_options True True)"
    by (simp_all add: example_options_def)
  show ?thesis
    by (simp add: process_batch_dry o js_slice_all)
qed

end
